theory Spec2Isabelle
  imports Main "HOL-Library.AList"
begin

section \<open>Strings\<close>

text \<open>
  The template parser (\<^verbatim>\<open>parse-profile.ts\<close>) works on JavaScript strings, which are
  sequences of UTF-16 code units. The model uses \<^typ>\<open>string\<close>: a \<^typ>\<open>char\<close> stands for
  the code unit of the same value, so the model covers documents whose code units are below
  256 (the Latin-1 range). Within that range the characters matched by the regular
  expression class \<^verbatim>\<open>\s\<close> and removed by \<^verbatim>\<open>trim()\<close> are TAB, LF, VT, FF, CR, SPACE and
  NBSP; the line terminators (after which \<^verbatim>\<open>^\<close> matches under the \<^verbatim>\<open>m\<close> flag and which
  \<^verbatim>\<open>.\<close> does not match without the \<^verbatim>\<open>s\<close> flag) are LF and CR.
\<close>

definition is_space :: "char \<Rightarrow> bool" where
  "is_space c = (c = CHR 0x09 \<or> c = CHR 0x0A \<or> c = CHR 0x0B \<or> c = CHR 0x0C \<or> c = CHR 0x0D
                 \<or> c = CHR 0x20 \<or> c = CHR 0xA0)"

definition is_line_terminator :: "char \<Rightarrow> bool" where
  "is_line_terminator c = (c = CHR 0x0A \<or> c = CHR 0x0D)"

definition is_digit :: "char \<Rightarrow> bool" where
  "is_digit c = (c \<in> set ''0123456789'')"

text \<open>\<^verbatim>\<open>s.startsWith(p)\<close>.\<close>

fun startsWith :: "string \<Rightarrow> string \<Rightarrow> bool" where
  "startsWith s [] = True"
| "startsWith [] (p # ps) = False"
| "startsWith (c # cs) (p # ps) = (c = p \<and> startsWith cs ps)"

text \<open>
  The first position of \<open>s\<close> at which the rest of the string satisfies \<open>P\<close>; \<open>None\<close> is
  JavaScript's \<^verbatim>\<open>-1\<close>. It is the common shape of \<^verbatim>\<open>indexOf\<close> and of \<^verbatim>\<open>search\<close> with a
  regular expression.
\<close>

fun search :: "(string \<Rightarrow> bool) \<Rightarrow> string \<Rightarrow> nat option" where
  "search P [] = (if P [] then Some 0 else None)"
| "search P (c # cs) = (if P (c # cs) then Some 0 else map_option Suc (search P cs))"

definition indexOf :: "string \<Rightarrow> string \<Rightarrow> nat option" where
  "indexOf s pat = search (\<lambda>t. startsWith t pat) s"

text \<open>\<^verbatim>\<open>s.trim()\<close>.\<close>

definition trim :: "string \<Rightarrow> string" where
  "trim s = rev (dropWhile is_space (rev (dropWhile is_space s)))"

text \<open>
  \<^verbatim>\<open>s.split(d)\<close> for a one-character separator: \<open>acc\<close> is the piece being read. The result
  is never empty (\<^verbatim>\<open>"".split("\n")\<close> is \<^verbatim>\<open>[""]\<close>).
\<close>

fun split_from :: "char \<Rightarrow> string \<Rightarrow> string \<Rightarrow> string list" where
  "split_from d acc [] = [acc]"
| "split_from d acc (c # cs) =
     (if c = d then acc # split_from d [] cs else split_from d (acc @ [c]) cs)"

definition split :: "char \<Rightarrow> string \<Rightarrow> string list" where
  "split d s = split_from d [] s"

text \<open>
  \<^verbatim>\<open>s.replace(/X+/g, r)\<close> for a character class \<open>X\<close>: every maximal run of characters of
  the class becomes one \<open>r\<close>. The flag says that the previous character was in the class.
\<close>

fun replace_runs :: "(char \<Rightarrow> bool) \<Rightarrow> char \<Rightarrow> bool \<Rightarrow> string \<Rightarrow> string" where
  "replace_runs X r inrun [] = []"
| "replace_runs X r inrun (c # cs) =
     (if X c then (if inrun then replace_runs X r True cs else r # replace_runs X r True cs)
      else c # replace_runs X r False cs)"

text \<open>
  \<^verbatim>\<open>s.toLowerCase()\<close> on Latin-1 code units: A-Z and the accented capitals U+00C0-U+00DE
  (without the multiplication sign U+00D7) move up by 32.
\<close>

definition toLowerCase_char :: "char \<Rightarrow> char" where
  "toLowerCase_char c =
     (let n = (of_char c :: nat)
      in if (65 \<le> n \<and> n \<le> 90) \<or> (192 \<le> n \<and> n \<le> 222 \<and> n \<noteq> 215) then char_of (n + 32) else c)"

definition toLowerCase :: "string \<Rightarrow> string" where
  "toLowerCase s = map toLowerCase_char s"

section \<open>Parsing helpers\<close>

subsection \<open>cleanValue\<close>

text \<open>
  \<^verbatim>\<open>.replace(/<!--.*?-->/gs, "")\<close>: scanning from the left, an opening \<^verbatim>\<open><!--\<close> that has a
  closing \<^verbatim>\<open>-->\<close> after it is removed together with everything up to the first such
  closing; scanning goes on behind the removed span. An opening without a closing stays.
\<close>

fun stripComments :: "string \<Rightarrow> string" where
  "stripComments [] = []"
| "stripComments (c # cs) =
     (if startsWith (c # cs) ''<!--'' then
        (case indexOf (drop 3 cs) ''-->'' of
           Some j \<Rightarrow> stripComments (drop (3 + j + 3) cs)
         | None \<Rightarrow> c # stripComments cs)
      else c # stripComments cs)"

text \<open>
  \<^verbatim>\<open>.replace(/^\s+|\s+$/g, "")\<close> has no \<^verbatim>\<open>m\<close> flag: it removes the whitespace at both ends
  of the string, which is \<^const>\<open>trim\<close>. \<^verbatim>\<open>.replace(/\n+/g, " ")\<close> is \<^const>\<open>replace_runs\<close>.
\<close>

definition cleanValue :: "string \<Rightarrow> string" where
  "cleanValue s =
     trim (replace_runs (\<lambda>c. c = CHR 0x0A) (CHR '' '') False (trim (stripComments s)))"

subsection \<open>extractField\<close>

text \<open>\<^verbatim>\<open>if (pos !== -1 && pos < endIdx) endIdx = pos\<close>, as the new value of \<open>endIdx\<close>.\<close>

definition closer :: "nat \<Rightarrow> nat option \<Rightarrow> nat" where
  "closer endIdx pos = (case pos of Some p \<Rightarrow> if p < endIdx then p else endIdx | None \<Rightarrow> endIdx)"

text \<open>The regular expression \<^verbatim>\<open>/\n###\s/\<close> at the start of \<open>t\<close>.\<close>

definition heading3 :: "string \<Rightarrow> bool" where
  "heading3 t = (startsWith t ''\<newline>###'' \<and> (case drop 4 t of [] \<Rightarrow> False | e # _ \<Rightarrow> is_space e))"

definition extractField :: "string \<Rightarrow> string \<Rightarrow> string" where
  "extractField content label =
     (let marker = ''**'' @ label @ '':**''
      in case indexOf content marker of
           None \<Rightarrow> ''''
         | Some idx \<Rightarrow>
             let afterMarker = drop (idx + length marker) content;
                 endIdx = length afterMarker;
                 endIdx = fold (\<lambda>delimiter e. closer e (indexOf afterMarker delimiter))
                            [''\<newline>**'', ''\<newline>- **''] endIdx;
                 endIdx = closer endIdx (search heading3 afterMarker);
                 endIdx = closer endIdx (indexOf afterMarker ''\<newline>---'')
             in cleanValue (take endIdx afterMarker))"

subsection \<open>extractBulletList\<close>

text \<open>
  The \<^verbatim>\<open>for (const line of ...)\<close> loop: the lines still to read and the items pushed so
  far. \<^verbatim>\<open>break\<close> returns the items; a line that matches neither branch is passed over.
\<close>

fun bulletLoop :: "string list \<Rightarrow> string list \<Rightarrow> string list" where
  "bulletLoop [] items = items"
| "bulletLoop (line # rest) items =
     (let trimmed = trim line
      in if startsWith trimmed ''- '' \<or> startsWith trimmed ''* '' then
           (let val = cleanValue (drop 2 trimmed)
            in if val \<noteq> [] \<and> \<not> startsWith val ''<!--''
               then bulletLoop rest (items @ [val])
               else bulletLoop rest items)
         else if trimmed = [] \<or> startsWith trimmed ''#'' \<or> startsWith trimmed ''---'' then
           (if length items > 0 then items else bulletLoop rest items)
         else bulletLoop rest items)"

definition extractBulletList :: "string \<Rightarrow> string \<Rightarrow> string list" where
  "extractBulletList content afterMarker =
     (case indexOf content afterMarker of
        None \<Rightarrow> []
      | Some idx \<Rightarrow>
          let afterContent = drop (idx + length afterMarker) content
          in bulletLoop (split (CHR 0x0A) afterContent) [])"

subsection \<open>extractTable\<close>

text \<open>\<^verbatim>\<open>line.split("|").slice(1, -1).map(cleanValue)\<close>.\<close>

definition parseTableRow :: "string \<Rightarrow> string list" where
  "parseTableRow line = map cleanValue (butlast (tl (split (CHR ''|'') line)))"

text \<open>
  A row object \<^verbatim>\<open>Record<string, string>\<close> is an association list in insertion order.
  An assignment \<^verbatim>\<open>row[k] = v\<close> replaces the value of an existing key in place and appends a
  new key; the key \<^verbatim>\<open>__proto__\<close> is the accessor of \<^verbatim>\<open>Object.prototype\<close>, which ignores a
  string, so that the assignment leaves the object as it is. (The enumeration order of
  integer-like keys is not modelled; rows are only read by key.)
\<close>

type_synonym row = "(string \<times> string) list"

definition setProp :: "row \<Rightarrow> string \<Rightarrow> string \<Rightarrow> row" where
  "setProp r k v = (if k = ''__proto__'' then r else AList.update k v r)"

text \<open>\<^verbatim>\<open>h.toLowerCase().replace(/\s+/g, "_")\<close>.\<close>

definition headerKey :: "string \<Rightarrow> string" where
  "headerKey h = replace_runs is_space (CHR ''_'') False (toLowerCase h)"

text \<open>
  \<^verbatim>\<open>headers.forEach((h, idx) => { row[key] = cells[idx] || ""; })\<close>: a cell that is missing
  (\<^verbatim>\<open>undefined\<close>) or empty gives the empty string.
\<close>

fun forEachHeader :: "string list \<Rightarrow> nat \<Rightarrow> string list \<Rightarrow> row \<Rightarrow> row" where
  "forEachHeader [] idx cells r = r"
| "forEachHeader (h # hs) idx cells r =
     forEachHeader hs (Suc idx) cells
       (setProp r (headerKey h) (if idx < length cells then cells ! idx else ''''))"

text \<open>The first loop: the index of the first line that starts with a pipe.\<close>

fun headerLoop :: "string list \<Rightarrow> nat \<Rightarrow> nat option" where
  "headerLoop [] i = None"
| "headerLoop (l # ls) i =
     (if startsWith l ''|'' \<and> CHR ''|'' \<in> set l then Some i else headerLoop ls (Suc i))"

text \<open>The second loop, from \<open>dataStart\<close> on: \<^verbatim>\<open>break\<close> at a line without a leading pipe,
  \<^verbatim>\<open>continue\<close> at a row whose cells are all empty or start with \<^verbatim>\<open><!--\<close>.\<close>

fun rowLoop :: "string list \<Rightarrow> string list \<Rightarrow> row list \<Rightarrow> row list" where
  "rowLoop headers [] rows = rows"
| "rowLoop headers (line # rest) rows =
     (if \<not> startsWith line ''|'' then rows
      else let cells = parseTableRow line
           in if list_all (\<lambda>c. c = [] \<or> startsWith c ''<!--'') cells
              then rowLoop headers rest rows
              else rowLoop headers rest (rows @ [forEachHeader headers 0 cells []]))"

definition extractTable :: "string \<Rightarrow> string \<Rightarrow> row list" where
  "extractTable content afterMarker =
     (case indexOf content afterMarker of
        None \<Rightarrow> []
      | Some idx \<Rightarrow>
          (let afterContent = drop (idx + length afterMarker) content;
               lines = map trim (split (CHR 0x0A) afterContent)
           in (case headerLoop lines 0 of
                 None \<Rightarrow> []
               | Some headerIdx \<Rightarrow>
                   (let headers = parseTableRow (lines ! headerIdx)
                    in if length headers = 0 then []
                       else (let dataStart = headerIdx + 2
                             in rowLoop headers (drop dataStart lines) [])))))"

subsection \<open>extractSection\<close>

definition extractSection :: "string \<Rightarrow> string \<Rightarrow> string" where
  "extractSection content heading =
     (let marker = ''## '' @ heading;
          idx = indexOf content (CHR 0x0A # marker);
          startIdx = (case idx of
                        Some i \<Rightarrow> Some (i + 1)
                      | None \<Rightarrow> if startsWith content marker then Some 0 else None)
      in case startIdx of
           None \<Rightarrow> ''''
         | Some st \<Rightarrow>
             (let afterHeading = drop (st + length marker) content
              in (case indexOf afterHeading ''\<newline>'' of
                    None \<Rightarrow> ''''
                  | Some newlinePos \<Rightarrow>
                      (let sectionContent = drop (newlinePos + 1) afterHeading
                       in (case indexOf sectionContent ''\<newline>## '' of
                             None \<Rightarrow> trim sectionContent
                           | Some nextSection \<Rightarrow> trim (take nextSection sectionContent))))))"

subsection \<open>Splitting at a regular expression anchored at a line start\<close>

text \<open>
  \<^verbatim>\<open>s.split(/^R/m)\<close>, for a regular expression \<open>R\<close> that does not match the empty string and
  takes no account of what precedes it: \<open>m t\<close> is the length of the match of \<open>R\<close> at the start
  of \<open>t\<close>, if there is one. The string is read from the left; \<open>bol\<close> says that \<^verbatim>\<open>^\<close> matches
  at the current position (start of the input, or the previous character is a line
  terminator), \<open>acc\<close> is the piece being read. A match closes the piece and is itself
  dropped; reading goes on behind it.
\<close>

fun split_re :: "(string \<Rightarrow> nat option) \<Rightarrow> bool \<Rightarrow> string \<Rightarrow> string \<Rightarrow> string list" where
  "split_re m bol acc [] = [acc]"
| "split_re m bol acc (c # cs) =
     (case (if bol then m (c # cs) else None) of
        Some (Suc k) \<Rightarrow>
          acc # split_re m (is_line_terminator (last (take (Suc k) (c # cs)))) [] (drop k cs)
      | _ \<Rightarrow> split_re m (is_line_terminator c) (acc @ [c]) cs)"

subsection \<open>extractWhatIOffer\<close>

record OfferItem =
  offer_title :: string
  offer_description :: string

text \<open>The literal \<^verbatim>\<open>- \*\*Title:\*\*\<close> at the start of \<open>t\<close> (12 characters).\<close>

definition titleMarker :: "string \<Rightarrow> nat option" where
  "titleMarker t = (if startsWith t ''- **Title:**'' then Some 12 else None)"

text \<open>
  \<^verbatim>\<open>block.match(/\*\*Description:\*\*\s*(.+)/)\<close>, the text of group 1. \<open>descTry t k\<close> is
  the attempt behind the literal, where \<open>t\<close> follows the literal and \<^verbatim>\<open>\s*\<close> takes \<open>k\<close>
  characters: the group \<^verbatim>\<open>(.+)\<close> takes every character up to the next line terminator and
  needs at least one; when it finds none, \<^verbatim>\<open>\s*\<close> gives one character back. \<^verbatim>\<open>\s*\<close> is
  greedy and starts with the whole run of whitespace. When no attempt succeeds behind this
  occurrence of the literal, the match is tried at the next position of the block.
\<close>

fun descTry :: "string \<Rightarrow> nat \<Rightarrow> string option" where
  "descTry t k =
     (case takeWhile (\<lambda>c. \<not> is_line_terminator c) (drop k t) of
        [] \<Rightarrow> (case k of 0 \<Rightarrow> None | Suc j \<Rightarrow> descTry t j)
      | g # gs \<Rightarrow> Some (g # gs))"

fun descMatch :: "string \<Rightarrow> string option" where
  "descMatch [] = None"
| "descMatch (c # cs) =
     (if startsWith (c # cs) ''**Description:**'' then
        (let t = drop 15 cs
         in case descTry t (length (takeWhile is_space t)) of
              Some g \<Rightarrow> Some g
            | None \<Rightarrow> descMatch cs)
      else descMatch cs)"

text \<open>The loop over \<^verbatim>\<open>blocks.slice(1)\<close>; \<^verbatim>\<open>block.split("\n")[0]\<close> is the first line.\<close>

fun offerLoop :: "string list \<Rightarrow> OfferItem list \<Rightarrow> OfferItem list" where
  "offerLoop [] items = items"
| "offerLoop (block # rest) items =
     (let title = cleanValue (hd (split (CHR 0x0A) block));
          description = (case descMatch block of Some g \<Rightarrow> cleanValue g | None \<Rightarrow> '''')
      in if title \<noteq> [] \<and> \<not> startsWith title ''<!--''
         then offerLoop rest
                (items @ [\<lparr>offer_title = title, offer_description = description\<rparr>])
         else offerLoop rest items)"

definition extractWhatIOffer :: "string \<Rightarrow> OfferItem list" where
  "extractWhatIOffer section =
     (let blocks = split_re titleMarker True [] section
      in offerLoop (tl blocks) [])"

subsection \<open>extractRoles\<close>

record ExperienceEntry =
  role_title :: string
  role_company :: string
  role_dates :: string
  role_location :: string
  role_description :: string
  role_contributions :: "string list"

text \<open>
  \<^verbatim>\<open>### Role \d+[^\n]*\<close> at the start of \<open>t\<close>: the literal, at least one digit, and then
  every character up to the next LF (the digits after the first are taken by \<^verbatim>\<open>\d+\<close> or by
  \<^verbatim>\<open>[^\n]*\<close>, with the same match).
\<close>

definition roleHeading :: "string \<Rightarrow> nat option" where
  "roleHeading t =
     (if startsWith t ''### Role '' \<and> (case drop 9 t of [] \<Rightarrow> False | d # _ \<Rightarrow> is_digit d)
      then Some (9 + length (takeWhile (\<lambda>c. c \<noteq> CHR 0x0A) (drop 9 t)))
      else None)"

fun roleLoop :: "string list \<Rightarrow> ExperienceEntry list \<Rightarrow> ExperienceEntry list" where
  "roleLoop [] roles = roles"
| "roleLoop (block # rest) roles =
     (let title = extractField block ''Title'';
          company = extractField block ''Company'';
          dates = extractField block ''Dates'';
          location = extractField block ''Location'';
          description = extractField block ''Description'';
          contributions = extractBulletList block ''**Key Contributions:**''
      in if title \<noteq> [] \<or> company \<noteq> []
         then roleLoop rest
                (roles @ [\<lparr>role_title = title, role_company = company, role_dates = dates,
                           role_location = location, role_description = description,
                           role_contributions = filter (\<lambda>c. c \<noteq> []) contributions\<rparr>])
         else roleLoop rest roles)"

definition extractRoles :: "string \<Rightarrow> ExperienceEntry list" where
  "extractRoles section =
     (let roleBlocks = split_re roleHeading True [] section
      in roleLoop (tl roleBlocks) [])"

section \<open>The main parser\<close>

text \<open>
  The interfaces of the nine endpoint records. Field names carry the record's name where
  the interfaces share them. The cells of a table row are read from the row
  object by key: a key that the table's header does not name reads as \<^verbatim>\<open>undefined\<close> at
  run time (the property is then left out of the JSON file), which is \<open>None\<close> here.
\<close>

record AboutData =
  about_name :: string
  about_preferred_name :: string
  about_title :: string
  about_location :: string
  about_core_thesis :: string
  about_the_moment :: string
  about_what_i_offer :: "OfferItem list"

record NarrativeData =
  professional_narrative :: string
  philosophy :: string

record ThesisData =
  thesis_core_thesis :: string
  thesis_the_moment :: string
  implications :: "string list"

record FinancialImpact =
  fi_accomplishment :: "string option"
  fi_company :: "string option"
  fi_value :: "string option"

record AccomplishmentsData =
  acc_financial_impact :: "FinancialImpact list"
  operational_scale :: "string list"
  recognition_innovation :: "string list"

record HeadlineStat =
  hs_stat :: "string option"
  hs_context :: "string option"

record TrackRecordData =
  headline_stats :: "HeadlineStat list"
  tr_financial_impact :: "FinancialImpact list"

record ExperienceData =
  exp_experience :: "ExperienceEntry list"

record OrganizationType =
  ot_type :: "string option"
  ot_what_i_bring :: "string option"

record SeekingData =
  target_roles :: "string list"
  reporting_relationship :: string
  organization_types :: "OrganizationType list"
  industry :: string

record CulturalFitData =
  thrive_in :: "string list"
  not_right_for :: "string list"

record Expertise =
  methodologies :: "string list"
  technical :: "string list"
  domain_expertise :: "string list"

record SkillsData =
  skills_what_i_offer :: "OfferItem list"
  expertise :: Expertise

record ProfileData =
  about :: AboutData
  narrative :: NarrativeData
  thesis :: ThesisData
  accomplishments :: AccomplishmentsData
  track_record :: TrackRecordData
  experience :: ExperienceData
  seeking :: SeekingData
  cultural_fit :: CulturalFitData
  skills :: SkillsData

text \<open>
  \<^verbatim>\<open>r.key\<close> on a row object, and its use as a condition (\<^verbatim>\<open>.filter((r) => r.key)\<close>): a
  missing property and the empty string are both falsy.
\<close>

definition getProp :: "row \<Rightarrow> string \<Rightarrow> string option" where
  "getProp r k = map_of r k"

definition truthy :: "string option \<Rightarrow> bool" where
  "truthy v = (case v of None \<Rightarrow> False | Some s \<Rightarrow> s \<noteq> [])"

text \<open>
  The body of \<^verbatim>\<open>parseTemplate\<close> behind \<^verbatim>\<open>readFileSync\<close>: from the text of the document to
  the nine records.
\<close>

definition parseDocument :: "string \<Rightarrow> ProfileData" where
  "parseDocument raw =
     (let aboutSection = extractSection raw ''About'';
          narrativeSection = extractSection raw ''Narrative'';
          thesisSection = extractSection raw ''Thesis'';
          accomplishmentsSection = extractSection raw ''Accomplishments'';
          trackRecordSection = extractSection raw ''Track Record'';
          experienceSection = extractSection raw ''Experience'';
          seekingSection = extractSection raw ''Seeking'';
          culturalFitSection = extractSection raw ''Cultural Fit'';
          skillsSection = extractSection raw ''Skills'';
          whatIOffer = extractWhatIOffer aboutSection;
          about = \<lparr>about_name = extractField aboutSection ''Name'',
                   about_preferred_name = extractField aboutSection ''Preferred Name'',
                   about_title = extractField aboutSection ''Title'',
                   about_location = extractField aboutSection ''Location'',
                   about_core_thesis = extractField aboutSection ''Core Thesis'',
                   about_the_moment = extractField aboutSection ''The Moment'',
                   about_what_i_offer = whatIOffer\<rparr>;
          narrative = \<lparr>professional_narrative =
                         extractField narrativeSection ''Professional Narrative'',
                       philosophy = extractField narrativeSection ''Philosophy''\<rparr>;
          thesis = \<lparr>thesis_core_thesis = extractField thesisSection ''Core Thesis'',
                    thesis_the_moment = extractField thesisSection ''The Moment'',
                    implications = extractBulletList thesisSection ''### Implications''\<rparr>;
          financialImpactTable = extractTable accomplishmentsSection ''### Financial Impact'';
          accomplishments =
            \<lparr>acc_financial_impact =
               map (\<lambda>r. \<lparr>fi_accomplishment = getProp r ''accomplishment'',
                          fi_company = getProp r ''company'',
                          fi_value = getProp r ''value''\<rparr>)
                 (filter (\<lambda>r. truthy (getProp r ''accomplishment'')) financialImpactTable),
             operational_scale =
               extractBulletList accomplishmentsSection ''### Operational Scale'',
             recognition_innovation =
               extractBulletList accomplishmentsSection ''### Recognition & Innovation''\<rparr>;
          headlineTable = extractTable trackRecordSection ''### Headline Stats'';
          trackRecord =
            \<lparr>headline_stats =
               map (\<lambda>r. \<lparr>hs_stat = getProp r ''stat'', hs_context = getProp r ''context''\<rparr>)
                 (filter (\<lambda>r. truthy (getProp r ''stat'')) headlineTable),
             tr_financial_impact = acc_financial_impact accomplishments\<rparr>;
          experience = \<lparr>exp_experience = extractRoles experienceSection\<rparr>;
          orgTypesTable = extractTable seekingSection ''### Organization Types'';
          seeking =
            \<lparr>target_roles = extractBulletList seekingSection ''**Target Roles:**'',
             reporting_relationship = extractField seekingSection ''Reporting Relationship'',
             organization_types =
               map (\<lambda>r. \<lparr>ot_type = getProp r ''organization_type'',
                          ot_what_i_bring = getProp r ''what_i_bring''\<rparr>)
                 (filter (\<lambda>r. truthy (getProp r ''organization_type'')) orgTypesTable),
             industry = extractField seekingSection ''Industry''\<rparr>;
          culturalFit =
            \<lparr>thrive_in = extractBulletList culturalFitSection ''### I Thrive In'',
             not_right_for = extractBulletList culturalFitSection ''### Not Right For''\<rparr>;
          skills =
            \<lparr>skills_what_i_offer = whatIOffer,
             expertise =
               \<lparr>methodologies = extractBulletList skillsSection ''### Methodologies'',
                technical = extractBulletList skillsSection ''### Technical'',
                domain_expertise = extractBulletList skillsSection ''### Domain Expertise''\<rparr>\<rparr>
      in \<lparr>about = about, narrative = narrative, thesis = thesis,
          accomplishments = accomplishments, track_record = trackRecord,
          experience = experience, seeking = seeking, cultural_fit = culturalFit,
          skills = skills\<rparr>)"

subsection \<open>The file system\<close>

text \<open>
  Paths are taken as already resolved. A path names a file with its text, a directory, or
  nothing. \<^verbatim>\<open>readFileSync\<close> throws on a path that is missing or a directory; the exception
  is the \<open>Inl\<close> of the result.
\<close>

datatype fs_node = File string | Directory

type_synonym filesystem = "string \<Rightarrow> fs_node option"

datatype io_error = ENOENT | EISDIR

definition existsSync :: "filesystem \<Rightarrow> string \<Rightarrow> bool" where
  "existsSync fs path = (fs path \<noteq> None)"

definition readFileSync :: "filesystem \<Rightarrow> string \<Rightarrow> io_error + string" where
  "readFileSync fs path =
     (case fs path of
        None \<Rightarrow> Inl ENOENT
      | Some Directory \<Rightarrow> Inl EISDIR
      | Some (File text) \<Rightarrow> Inr text)"

definition parseTemplate :: "filesystem \<Rightarrow> string \<Rightarrow> io_error + ProfileData" where
  "parseTemplate fs templatePath =
     (case readFileSync fs templatePath of
        Inl e \<Rightarrow> Inl e
      | Inr raw \<Rightarrow> Inr (parseDocument raw))"

section \<open>File output\<close>

text \<open>
  \<^verbatim>\<open>isEmptyData\<close> inspects a value at run time, so the records are also given as JavaScript
  values: an object is the list of its properties in the order of the object literal.
\<close>

datatype jsval =
    JUndefined
  | JNull
  | JBool bool
  | JString string
  | JArray "jsval list"
  | JObject "(string \<times> jsval) list"

fun isEmptyData :: "jsval \<Rightarrow> bool" where
  "isEmptyData JUndefined = True"
| "isEmptyData JNull = True"
| "isEmptyData (JString s) = (trim s = '''')"
| "isEmptyData (JArray xs) = (length xs = 0)"
| "isEmptyData (JObject kvs) = list_all isEmptyData (map snd kvs)"
| "isEmptyData (JBool b) = False"

definition js_opt :: "string option \<Rightarrow> jsval" where
  "js_opt v = (case v of None \<Rightarrow> JUndefined | Some s \<Rightarrow> JString s)"

definition js_strings :: "string list \<Rightarrow> jsval" where
  "js_strings xs = JArray (map JString xs)"

definition js_OfferItem :: "OfferItem \<Rightarrow> jsval" where
  "js_OfferItem i =
     JObject [(''title'', JString (offer_title i)),
              (''description'', JString (offer_description i))]"

definition js_AboutData :: "AboutData \<Rightarrow> jsval" where
  "js_AboutData a =
     JObject [(''name'', JString (about_name a)),
              (''preferred_name'', JString (about_preferred_name a)),
              (''title'', JString (about_title a)),
              (''location'', JString (about_location a)),
              (''core_thesis'', JString (about_core_thesis a)),
              (''the_moment'', JString (about_the_moment a)),
              (''what_i_offer'', JArray (map js_OfferItem (about_what_i_offer a)))]"

definition js_NarrativeData :: "NarrativeData \<Rightarrow> jsval" where
  "js_NarrativeData n =
     JObject [(''professional_narrative'', JString (professional_narrative n)),
              (''philosophy'', JString (philosophy n))]"

definition js_ThesisData :: "ThesisData \<Rightarrow> jsval" where
  "js_ThesisData t =
     JObject [(''core_thesis'', JString (thesis_core_thesis t)),
              (''the_moment'', JString (thesis_the_moment t)),
              (''implications'', js_strings (implications t))]"

definition js_FinancialImpact :: "FinancialImpact \<Rightarrow> jsval" where
  "js_FinancialImpact f =
     JObject [(''accomplishment'', js_opt (fi_accomplishment f)),
              (''company'', js_opt (fi_company f)),
              (''value'', js_opt (fi_value f))]"

definition js_AccomplishmentsData :: "AccomplishmentsData \<Rightarrow> jsval" where
  "js_AccomplishmentsData a =
     JObject [(''financial_impact'', JArray (map js_FinancialImpact (acc_financial_impact a))),
              (''operational_scale'', js_strings (operational_scale a)),
              (''recognition_innovation'', js_strings (recognition_innovation a))]"

definition js_HeadlineStat :: "HeadlineStat \<Rightarrow> jsval" where
  "js_HeadlineStat h =
     JObject [(''stat'', js_opt (hs_stat h)), (''context'', js_opt (hs_context h))]"

definition js_TrackRecordData :: "TrackRecordData \<Rightarrow> jsval" where
  "js_TrackRecordData t =
     JObject [(''headline_stats'', JArray (map js_HeadlineStat (headline_stats t))),
              (''financial_impact'', JArray (map js_FinancialImpact (tr_financial_impact t)))]"

definition js_ExperienceEntry :: "ExperienceEntry \<Rightarrow> jsval" where
  "js_ExperienceEntry e =
     JObject [(''title'', JString (role_title e)),
              (''company'', JString (role_company e)),
              (''dates'', JString (role_dates e)),
              (''location'', JString (role_location e)),
              (''description'', JString (role_description e)),
              (''contributions'', js_strings (role_contributions e))]"

definition js_ExperienceData :: "ExperienceData \<Rightarrow> jsval" where
  "js_ExperienceData e =
     JObject [(''experience'', JArray (map js_ExperienceEntry (exp_experience e)))]"

definition js_OrganizationType :: "OrganizationType \<Rightarrow> jsval" where
  "js_OrganizationType t =
     JObject [(''type'', js_opt (ot_type t)), (''what_i_bring'', js_opt (ot_what_i_bring t))]"

definition js_SeekingData :: "SeekingData \<Rightarrow> jsval" where
  "js_SeekingData k =
     JObject [(''target_roles'', js_strings (target_roles k)),
              (''reporting_relationship'', JString (reporting_relationship k)),
              (''organization_types'', JArray (map js_OrganizationType (organization_types k))),
              (''industry'', JString (industry k))]"

definition js_CulturalFitData :: "CulturalFitData \<Rightarrow> jsval" where
  "js_CulturalFitData c =
     JObject [(''thrive_in'', js_strings (thrive_in c)),
              (''not_right_for'', js_strings (not_right_for c))]"

definition js_SkillsData :: "SkillsData \<Rightarrow> jsval" where
  "js_SkillsData k =
     JObject [(''what_i_offer'', JArray (map js_OfferItem (skills_what_i_offer k))),
              (''expertise'',
               JObject [(''methodologies'', js_strings (methodologies (expertise k))),
                        (''technical'', js_strings (technical (expertise k))),
                        (''domain'', js_strings (domain_expertise (expertise k)))])]"

text \<open>The properties of the \<^verbatim>\<open>ProfileData\<close> object, in the order of the object literal that
  \<^verbatim>\<open>parseTemplate\<close> returns: \<^verbatim>\<open>Object.keys(data)\<close> and \<^verbatim>\<open>data[endpoint]\<close>.\<close>

definition js_ProfileData :: "ProfileData \<Rightarrow> (string \<times> jsval) list" where
  "js_ProfileData d =
     [(''about'', js_AboutData (about d)),
      (''narrative'', js_NarrativeData (narrative d)),
      (''thesis'', js_ThesisData (thesis d)),
      (''accomplishments'', js_AccomplishmentsData (accomplishments d)),
      (''track-record'', js_TrackRecordData (track_record d)),
      (''experience'', js_ExperienceData (experience d)),
      (''seeking'', js_SeekingData (seeking d)),
      (''cultural-fit'', js_CulturalFitData (cultural_fit d)),
      (''skills'', js_SkillsData (skills d))]"

definition endpointDescription :: "string \<Rightarrow> string" where
  "endpointDescription endpoint =
     (case map_of
        [(''about'', ''Core identity and professional positioning''),
         (''narrative'', ''Professional story and philosophy''),
         (''thesis'', ''Core professional thesis and implications''),
         (''accomplishments'', ''Quantified achievements with evidence''),
         (''track-record'', ''Headline stats with context''),
         (''experience'', ''Role history with contributions''),
         (''seeking'', ''Target roles, org types, what they want''),
         (''cultural-fit'', ''Thrive-in environments and not-right-for signals''),
         (''skills'', ''Expertise: methodologies, technical, domain'')] endpoint of
        Some d \<Rightarrow> d
      | None \<Rightarrow> endpoint)"

text \<open>
  \<^verbatim>\<open>writeEndpointFiles\<close> is modelled by the sequence of its \<^verbatim>\<open>writeFileSync\<close> calls: the
  name of the file inside the output directory and the payload that is serialised into it
  (\<^verbatim>\<open>JSON.stringify\<close> is not modelled). The date of the run is an argument; the console
  output is left out. \<open>endpointLoop\<close> is the \<^verbatim>\<open>for\<close> loop over the endpoints, with the
  writes made so far.
\<close>

type_synonym file_write = "string \<times> jsval"

fun endpointLoop ::
  "(string \<times> jsval) list \<Rightarrow> (string \<times> jsval) list \<Rightarrow> file_write list \<Rightarrow> file_write list" where
  "endpointLoop meta [] written = written"
| "endpointLoop meta ((endpoint, endpointData) # rest) written =
     (if isEmptyData endpointData then endpointLoop meta rest written
      else let payload = JObject [(''meta'', JObject (meta @ [(''endpoint'', JString (''/'' @ endpoint))])),
                                  (''data'', endpointData)]
           in endpointLoop meta rest (written @ [(endpoint @ ''.json'', payload)]))"

definition writeEndpointFiles :: "ProfileData \<Rightarrow> string \<Rightarrow> string \<Rightarrow> file_write list" where
  "writeEndpointFiles data version today =
     (let meta = [(''api_version'', JString version),
                  (''last_updated'', JString today),
                  (''source'', JString ''Living Resume API''),
                  (''note'', JString ''Machine-readable professional profile'')];
          endpoints = js_ProfileData data;
          written = endpointLoop meta endpoints [];
          availableEndpoints = filter (\<lambda>(e, v). \<not> isEmptyData v) endpoints;
          rootPayload =
            JObject [(''name'', JString ((if about_name (about data) \<noteq> [] then about_name (about data)
                                          else ''Unknown'') @ '' Living Resume API'')),
                     (''description'', JString ''Query this professional profile programmatically''),
                     (''version'', JString version),
                     (''last_updated'', JString today),
                     (''endpoints'',
                      JObject (map (\<lambda>(e, v). (''GET /'' @ e, JString (endpointDescription e)))
                                 availableEndpoints))]
      in written @ [(''root.json'', rootPayload)])"

section \<open>Command line\<close>

text \<open>
  The entry point of \<^verbatim>\<open>parse-profile.ts\<close> and the \<^verbatim>\<open>parse\<close> step of the deploy pipeline. Both
  test \<^verbatim>\<open>existsSync\<close> before they parse. The result records the exit code (or the boolean
  that \<^verbatim>\<open>parse\<close> returns), the diagnostics written to the error stream and the files
  written. An exception that leaves the entry point ends the process with exit code 1;
  \<^verbatim>\<open>parse\<close> catches it.
\<close>

datatype diagnostic = TemplateNotFound string | ParseFailed io_error | Uncaught io_error

record cli_result =
  exit_code :: nat
  cli_errors :: "diagnostic list"
  cli_written :: "file_write list"

definition cli_main :: "filesystem \<Rightarrow> string \<Rightarrow> string \<Rightarrow> cli_result" where
  "cli_main fs templatePath today =
     (if \<not> existsSync fs templatePath
      then \<lparr>exit_code = 1, cli_errors = [TemplateNotFound templatePath], cli_written = []\<rparr>
      else case parseTemplate fs templatePath of
             Inl e \<Rightarrow> \<lparr>exit_code = 1, cli_errors = [Uncaught e], cli_written = []\<rparr>
           | Inr data \<Rightarrow>
               \<lparr>exit_code = 0, cli_errors = [],
                cli_written = writeEndpointFiles data ''1.0.0'' today\<rparr>)"

record parse_result =
  parse_ok :: bool
  parse_errors :: "diagnostic list"
  parse_written :: "file_write list"

definition parse :: "filesystem \<Rightarrow> string \<Rightarrow> string \<Rightarrow> parse_result" where
  "parse fs templatePath today =
     (if \<not> existsSync fs templatePath
      then \<lparr>parse_ok = False, parse_errors = [TemplateNotFound templatePath], parse_written = []\<rparr>
      else case parseTemplate fs templatePath of
             Inl e \<Rightarrow> \<lparr>parse_ok = False, parse_errors = [ParseFailed e], parse_written = []\<rparr>
           | Inr data \<Rightarrow>
               \<lparr>parse_ok = True, parse_errors = [],
                parse_written = writeEndpointFiles data ''1.0.0'' today\<rparr>)"

section \<open>Reference definitions\<close>

text \<open>
  The definitions of this section are not translations of the source: they state in their
  own terms what the operations are said to compute, for comparison with the definitions
  above.
\<close>

subsection \<open>Cleaning\<close>

text \<open>
  Cleaning is described as doing three things and nothing else: it strips the
  annotation-comment spans, it strips the whitespace at both ends, and it collapses the
  line feeds inside the text to single spaces. Each of the three is defined here on its own.

  The pieces of a text between the characters of a class \<open>X\<close> (there is always at least one
  piece), its words (the pieces that are not empty), and the words joined by one separator
  character.
\<close>

fun pieces :: "(char \<Rightarrow> bool) \<Rightarrow> string \<Rightarrow> string list" where
  "pieces X [] = [[]]"
| "pieces X (c # cs) =
     (if X c then [] # pieces X cs
      else (case pieces X cs of [] \<Rightarrow> [[c]] | p # ps \<Rightarrow> (c # p) # ps))"

definition words_of :: "(char \<Rightarrow> bool) \<Rightarrow> string \<Rightarrow> string list" where
  "words_of X s = filter (\<lambda>p. p \<noteq> []) (pieces X s)"

fun join_with :: "char \<Rightarrow> string list \<Rightarrow> string" where
  "join_with r [] = []"
| "join_with r [w] = w"
| "join_with r (w # v # ws) = w @ r # join_with r (v # ws)"

text \<open>
  The text without its annotation spans: the first span runs from the first \<^verbatim>\<open><!--\<close> to the
  first \<^verbatim>\<open>-->\<close> behind it; the text before it is kept and the spans of the text behind it are
  deleted in the same way. A text without a complete span is left as it is.
\<close>

function without_annotations :: "string \<Rightarrow> string" where
  "without_annotations s =
     (case indexOf s ''<!--'' of
        None \<Rightarrow> s
      | Some i \<Rightarrow>
          (case indexOf (drop (i + 4) s) ''-->'' of
             None \<Rightarrow> s
           | Some j \<Rightarrow> take i s @ without_annotations (drop (i + 4 + j + 3) s)))"
  by pat_completeness auto
termination
proof (relation "measure length")
  show "wf (measure length)" by simp
next
  fix s :: string and i j
  assume "indexOf s ''<!--'' = Some i"
  then have "s \<noteq> []" by (auto simp: indexOf_def)
  then show "(drop (i + 4 + j + 3) s, s) \<in> measure length" by simp
qed

text \<open>The text without the whitespace before its first and after its last other character.\<close>

definition outer_stripped :: "string \<Rightarrow> string" where
  "outer_stripped s =
     (let t = dropWhile is_space s
      in take (length t - length (takeWhile is_space (rev t))) t)"

text \<open>Every run of line feeds inside the text becomes one space.\<close>

definition collapse_newlines :: "string \<Rightarrow> string" where
  "collapse_newlines s = join_with (CHR '' '') (words_of (\<lambda>c. c = CHR 0x0A) s)"

definition spec_cleanValue :: "string \<Rightarrow> string" where
  "spec_cleanValue raw = collapse_newlines (outer_stripped (without_annotations raw))"

subsection \<open>The field extractor\<close>

text \<open>
  A boundary of a field begins at the start of \<open>t\<close>: the next field marker in paragraph
  style or in bulleted style, a level-3 subsection heading (three hash signs and a
  whitespace character), or a horizontal rule.
\<close>

definition subsection_heading :: "string \<Rightarrow> bool" where
  "subsection_heading t = (take 4 t = ''\<newline>###'' \<and> 4 < length t \<and> is_space (t ! 4))"

definition field_boundary :: "string \<Rightarrow> bool" where
  "field_boundary t =
     (startsWith t ''\<newline>**'' \<or> startsWith t ''\<newline>- **'' \<or> subsection_heading t
      \<or> startsWith t ''\<newline>---'')"

text \<open>The text before the earliest boundary, or all of it when there is none.\<close>

fun upto_boundary :: "string \<Rightarrow> string" where
  "upto_boundary [] = []"
| "upto_boundary (c # cs) = (if field_boundary (c # cs) then [] else c # upto_boundary cs)"

text \<open>
  The field extractor as it is described: the cleaned text between the first occurrence of
  the marker and the earliest boundary behind it; the empty string without the marker.
\<close>

definition spec_extractField :: "string \<Rightarrow> string \<Rightarrow> string" where
  "spec_extractField span label =
     (case indexOf span (''**'' @ label @ '':**'') of
        None \<Rightarrow> ''''
      | Some i \<Rightarrow>
          spec_cleanValue (upto_boundary (drop (i + length (''**'' @ label @ '':**'')) span)))"

text \<open>The value of \<open>endIdx\<close> at the end of \<^const>\<open>extractField\<close>, for the text behind the marker.\<close>

definition fieldEnd :: "string \<Rightarrow> nat" where
  "fieldEnd s =
     closer (closer (closer (closer (length s) (indexOf s ''\<newline>**'')) (indexOf s ''\<newline>- **''))
        (search heading3 s)) (indexOf s ''\<newline>---'')"

subsection \<open>The records and the files\<close>

text \<open>The names of the nine endpoints, and the fields that the interface of each declares.\<close>

definition endpoint_names :: "string list" where
  "endpoint_names =
     [''about'', ''narrative'', ''thesis'', ''accomplishments'', ''track-record'',
      ''experience'', ''seeking'', ''cultural-fit'', ''skills'']"

definition interface_fields :: "string \<Rightarrow> string list" where
  "interface_fields endpoint =
     (case map_of
        [(''about'', [''name'', ''preferred_name'', ''title'', ''location'', ''core_thesis'',
                      ''the_moment'', ''what_i_offer'']),
         (''narrative'', [''professional_narrative'', ''philosophy'']),
         (''thesis'', [''core_thesis'', ''the_moment'', ''implications'']),
         (''accomplishments'', [''financial_impact'', ''operational_scale'',
                                ''recognition_innovation'']),
         (''track-record'', [''headline_stats'', ''financial_impact'']),
         (''experience'', [''experience'']),
         (''seeking'', [''target_roles'', ''reporting_relationship'', ''organization_types'',
                        ''industry'']),
         (''cultural-fit'', [''thrive_in'', ''not_right_for'']),
         (''skills'', [''what_i_offer'', ''expertise''])] endpoint of
        Some names \<Rightarrow> names
      | None \<Rightarrow> [])"

text \<open>\<^verbatim>\<open>Object.keys\<close> and \<^verbatim>\<open>Object.values\<close>.\<close>

fun object_keys :: "jsval \<Rightarrow> string list" where
  "object_keys (JObject kvs) = map fst kvs"
| "object_keys v = []"

fun object_values :: "jsval \<Rightarrow> jsval list" where
  "object_values (JObject kvs) = map snd kvs"
| "object_values v = []"

text \<open>The directory listing: the keys of the \<^verbatim>\<open>endpoints\<close> object of \<^verbatim>\<open>root.json\<close>.\<close>

definition directory_listing :: "file_write list \<Rightarrow> string list" where
  "directory_listing written =
     (case map_of written ''root.json'' of
        Some root \<Rightarrow> (case map_of (zip (object_keys root) (object_values root)) ''endpoints'' of
                       Some endpoints \<Rightarrow> object_keys endpoints
                     | None \<Rightarrow> [])
      | None \<Rightarrow> [])"

text \<open>Every field, list and table of the record of an endpoint is empty.\<close>

definition record_unset :: "ProfileData \<Rightarrow> string \<Rightarrow> bool" where
  "record_unset d e =
     (if e = ''about'' then
        about_name (about d) = [] \<and> about_preferred_name (about d) = [] \<and>
        about_title (about d) = [] \<and> about_location (about d) = [] \<and>
        about_core_thesis (about d) = [] \<and> about_the_moment (about d) = [] \<and>
        about_what_i_offer (about d) = []
      else if e = ''narrative'' then
        professional_narrative (narrative d) = [] \<and> philosophy (narrative d) = []
      else if e = ''thesis'' then
        thesis_core_thesis (thesis d) = [] \<and> thesis_the_moment (thesis d) = [] \<and>
        implications (thesis d) = []
      else if e = ''accomplishments'' then
        acc_financial_impact (accomplishments d) = [] \<and>
        operational_scale (accomplishments d) = [] \<and>
        recognition_innovation (accomplishments d) = []
      else if e = ''track-record'' then
        headline_stats (track_record d) = [] \<and> tr_financial_impact (track_record d) = []
      else if e = ''experience'' then
        exp_experience (experience d) = []
      else if e = ''seeking'' then
        target_roles (seeking d) = [] \<and> reporting_relationship (seeking d) = [] \<and>
        organization_types (seeking d) = [] \<and> industry (seeking d) = []
      else if e = ''cultural-fit'' then
        thrive_in (cultural_fit d) = [] \<and> not_right_for (cultural_fit d) = []
      else if e = ''skills'' then
        skills_what_i_offer (skills d) = [] \<and> methodologies (expertise (skills d)) = [] \<and>
        technical (expertise (skills d)) = [] \<and> domain_expertise (expertise (skills d)) = []
      else True)"

subsection \<open>Annotation comments\<close>

text \<open>The raw text contains an annotation-comment span: an opening \<^verbatim>\<open><!--\<close> with a closing
  \<^verbatim>\<open>-->\<close> behind it.\<close>

definition has_annotation :: "string \<Rightarrow> bool" where
  "has_annotation raw =
     (case indexOf raw ''<!--'' of
        None \<Rightarrow> False
      | Some i \<Rightarrow> indexOf (drop (i + 4) raw) ''-->'' \<noteq> None)"

subsection \<open>The list extractor\<close>

text \<open>
  A bullet line; the item that a bullet line contributes, if any (its cleaned text, unless
  that is empty or begins with \<^verbatim>\<open><!--\<close>); a line at which reading stops once an item has
  been collected (blank, heading or rule).
\<close>

definition bullet_line :: "string \<Rightarrow> bool" where
  "bullet_line line = (startsWith (trim line) ''- '' \<or> startsWith (trim line) ''* '')"

definition bullet_item :: "string \<Rightarrow> string option" where
  "bullet_item line =
     (if bullet_line line
      then (let item = spec_cleanValue (drop 2 (trim line))
            in if item = [] \<or> startsWith item ''<!--'' then None else Some item)
      else None)"

definition bullet_stop :: "string \<Rightarrow> bool" where
  "bullet_stop line =
     (\<not> bullet_line line \<and>
      (trim line = [] \<or> startsWith (trim line) ''#'' \<or> startsWith (trim line) ''---''))"

text \<open>A heading line or a horizontal rule.\<close>

definition heading_or_rule :: "string \<Rightarrow> bool" where
  "heading_or_rule line = (startsWith (trim line) ''#'' \<or> startsWith (trim line) ''---'')"

text \<open>
  The list extractor as it is described: a blank, heading or rule line always ends the
  list, and so does any other line without a bullet once an item has been collected. The
  lines are those after the line of the marker.
\<close>

fun spec_bulletLoop :: "string list \<Rightarrow> string list \<Rightarrow> string list" where
  "spec_bulletLoop [] items = items"
| "spec_bulletLoop (line # rest) items =
     (if bullet_line line then
        (case bullet_item line of
           Some item \<Rightarrow> spec_bulletLoop rest (items @ [item])
         | None \<Rightarrow> spec_bulletLoop rest items)
      else if bullet_stop line then items
      else if items \<noteq> [] then items
      else spec_bulletLoop rest items)"

definition spec_extractBulletList :: "string \<Rightarrow> string \<Rightarrow> string list" where
  "spec_extractBulletList span marker =
     (case indexOf span marker of
        None \<Rightarrow> []
      | Some i \<Rightarrow> spec_bulletLoop (tl (split (CHR 0x0A) (drop (i + length marker) span))) [])"

subsection \<open>The table extractor\<close>











subsection \<open>The role blocks\<close>

text \<open>
  The text \<open>t\<close> begins with a role heading (\<^verbatim>\<open>### Role\<close>, a space and a digit); a heading line
  is such a text without a line feed; a text is free of role headings when none begins at a
  line start inside it (the flag says that the text itself begins at a line start).
\<close>

definition starts_role_heading :: "string \<Rightarrow> bool" where
  "starts_role_heading t = (take 9 t = ''### Role '' \<and> 9 < length t \<and> is_digit (t ! 9))"

definition role_heading_line :: "string \<Rightarrow> bool" where
  "role_heading_line h = (starts_role_heading h \<and> CHR 0x0A \<notin> set h)"

fun heading_free :: "bool \<Rightarrow> string \<Rightarrow> bool" where
  "heading_free bol [] = True"
| "heading_free bol (c # cs) =
     (\<not> (bol \<and> starts_role_heading (c # cs)) \<and> heading_free (is_line_terminator c) cs)"

text \<open>The role record of a block, and the condition under which a block is kept.\<close>

definition role_of_block :: "string \<Rightarrow> ExperienceEntry" where
  "role_of_block block =
     \<lparr>role_title = extractField block ''Title'',
      role_company = extractField block ''Company'',
      role_dates = extractField block ''Dates'',
      role_location = extractField block ''Location'',
      role_description = extractField block ''Description'',
      role_contributions = extractBulletList block ''**Key Contributions:**''\<rparr>"

definition block_kept :: "string \<Rightarrow> bool" where
  "block_kept block = (extractField block ''Title'' \<noteq> [] \<or> extractField block ''Company'' \<noteq> [])"

subsection \<open>The section locator on lines\<close>

text \<open>
  A document is the text of its lines joined by line feeds. A line is the heading of the
  section \<open>name\<close> when it begins with \<^verbatim>\<open>## name\<close>, and a top-level heading when it begins
  with \<^verbatim>\<open>## \<close>.
\<close>

fun join_lines :: "string list \<Rightarrow> string" where
  "join_lines [] = []"
| "join_lines [l] = l"
| "join_lines (l # l' # ls) = l @ CHR 0x0A # join_lines (l' # ls)"

definition is_heading :: "string \<Rightarrow> string \<Rightarrow> bool" where
  "is_heading name l = startsWith l (''## '' @ name)"

definition is_top_heading :: "string \<Rightarrow> bool" where
  "is_top_heading l = startsWith l ''## ''"

text \<open>
  What \<^const>\<open>extractSection\<close> computes, told on the lines of the document (this is proved
  below): the heading is looked for on the lines after the first and only then on the
  first line; of the lines behind it, the first is taken whatever it is, and the following
  ones up to the next top-level heading.
\<close>

definition heading_rest :: "string \<Rightarrow> string list \<Rightarrow> string list option" where
  "heading_rest name ls =
     (case dropWhile (\<lambda>l. \<not> is_heading name l) (tl ls) of
        l # rest \<Rightarrow> Some rest
      | [] \<Rightarrow> if is_heading name (hd ls) then Some (tl ls) else None)"

definition section_lines :: "string \<Rightarrow> string list \<Rightarrow> string" where
  "section_lines name ls =
     (case heading_rest name ls of
        None \<Rightarrow> ''''
      | Some [] \<Rightarrow> ''''
      | Some (f # fs) \<Rightarrow> trim (join_lines (f # takeWhile (\<lambda>l. \<not> is_top_heading l) fs)))"

text \<open>The text that follows a line: nothing, or a line feed and the lines that follow.\<close>

definition tail_text :: "string list \<Rightarrow> string" where
  "tail_text rest = (if rest = [] then [] else CHR 0x0A # join_lines rest)"

text \<open>
  The section locator as it is described: the text strictly between the heading line of the
  section and the next top-level heading line, and the empty string when there is no
  heading line.
\<close>

definition spec_extractSection :: "string \<Rightarrow> string \<Rightarrow> string" where
  "spec_extractSection doc name =
     (case dropWhile (\<lambda>l. \<not> is_heading name l) (split (CHR 0x0A) doc) of
        [] \<Rightarrow> ''''
      | heading # rest \<Rightarrow> join_lines (takeWhile (\<lambda>l. \<not> is_top_heading l) rest))"

text \<open>
  Two shapes of a document: the heading of the section is on the first line and on a later
  line again; the heading line of the section is directly followed by a top-level heading
  line.
\<close>

definition heading_repeated :: "string \<Rightarrow> string \<Rightarrow> bool" where
  "heading_repeated doc name =
     (case split (CHR 0x0A) doc of
        [] \<Rightarrow> False
      | first # later \<Rightarrow> is_heading name first \<and> list_ex (is_heading name) later)"

definition heading_adjacent :: "string \<Rightarrow> string \<Rightarrow> bool" where
  "heading_adjacent doc name =
     (case dropWhile (\<lambda>l. \<not> is_heading name l) (split (CHR 0x0A) doc) of
        heading # next # rest \<Rightarrow> is_top_heading next
      | _ \<Rightarrow> False)"

text \<open>The section text read from the lines behind a heading line.\<close>

definition section_text :: "string list \<Rightarrow> string" where
  "section_text r =
     (case r of
        [] \<Rightarrow> ''''
      | f # fs \<Rightarrow> trim (join_lines (f # takeWhile (\<lambda>l. \<not> is_top_heading l) fs)))"

text \<open>
  A change of the lines behind the line \<open>heading\<close>, which follows the lines \<open>pre\<close>, does not
  concern the section \<open>name\<close>: \<open>heading\<close> is not the heading of that section, and neither is
  the line directly before it.
\<close>

definition untouched :: "string list \<Rightarrow> string \<Rightarrow> string \<Rightarrow> bool" where
  "untouched pre heading name =
     (\<not> is_heading name heading \<and> (pre = [] \<or> \<not> is_heading name (last pre)))"

section \<open>Properties\<close>

subsection \<open>Strings\<close>

lemma startsWith_prefix: "startsWith s p \<longleftrightarrow> take (length p) s = p"
  by (induction s p rule: startsWith.induct) auto

subsection \<open>The field extractor\<close>

lemma closer_Suc: "closer (Suc e) (map_option Suc p) = Suc (closer e p)"
  by (cases p) (auto simp: closer_def)

lemma closer_zero [simp]: "closer 0 p = 0" "closer e (Some 0) = 0"
  by (auto simp: closer_def split: option.splits)

lemma heading3_eq: "heading3 t = subsection_heading t"
proof -
  have len: "length ''\<newline>###'' = 4" by simp
  have sw: "startsWith t ''\<newline>###'' = (take 4 t = ''\<newline>###'')"
    unfolding startsWith_prefix len ..
  show ?thesis
  proof (cases "4 < length t")
    case True
    then have "drop 4 t = t ! 4 # drop 5 t"
      using Cons_nth_drop_Suc [of 4 t] by simp
    with True show ?thesis
      unfolding heading3_def subsection_heading_def sw by simp
  next
    case False
    then show ?thesis
      unfolding heading3_def subsection_heading_def sw by simp
  qed
qed

text \<open>The index that the four comparisons leave in \<open>endIdx\<close> is the earliest boundary.\<close>

lemma take_fieldEnd: "take (fieldEnd s) s = upto_boundary s"
proof (induction s)
  case Nil
  show ?case by (simp add: fieldEnd_def)
next
  case (Cons c cs)
  show ?case
  proof (cases "field_boundary (c # cs)")
    case True
    then have "fieldEnd (c # cs) = 0"
      unfolding fieldEnd_def field_boundary_def indexOf_def heading3_eq[symmetric]
      by (auto simp del: startsWith.simps)
    with True show ?thesis by simp
  next
    case False
    then have "fieldEnd (c # cs) = Suc (fieldEnd cs)"
      unfolding fieldEnd_def field_boundary_def indexOf_def heading3_eq[symmetric]
      by (simp del: startsWith.simps add: closer_Suc)
    with False Cons show ?thesis by simp
  qed
qed

lemma extractField_fieldEnd:
  "extractField content label =
     (case indexOf content (''**'' @ label @ '':**'') of
        None \<Rightarrow> ''''
      | Some idx \<Rightarrow>
          (let afterMarker = drop (idx + length (''**'' @ label @ '':**'')) content
           in cleanValue (take (fieldEnd afterMarker) afterMarker)))"
  by (simp add: extractField_def fieldEnd_def Let_def split: option.splits)

subsection \<open>Trimming\<close>

lemma trim_Nil [simp]: "trim [] = []"
  by (simp add: trim_def)

lemma dropWhile_rev_dropWhile:
  "dropWhile P (rev (dropWhile P (rev xs))) = rev (dropWhile P (rev xs))" if "xs = [] \<or> \<not> P (hd xs)"
proof (cases "dropWhile P (rev xs) = []")
  case True
  show ?thesis unfolding True by simp
next
  case False
  then obtain y where y: "y \<in> set (rev xs)" "\<not> P y"
    by (metis dropWhile_eq_Nil_conv)
  then have "xs \<noteq> []" by auto
  with that have nP: "\<not> P (hd xs)" by simp
  have "last (dropWhile P (rev xs)) = last (rev xs)"
    using y by (rule dropWhile_last)
  also have "\<dots> = hd xs" using \<open>xs \<noteq> []\<close> by (simp add: last_rev)
  finally have "hd (rev (dropWhile P (rev xs))) = hd xs"
    using False by (simp add: hd_rev)
  with nP False show ?thesis
    by (simp add: dropWhile_eq_self_iff)
qed

lemma trim_idem: "trim (trim s) = trim s"
proof -
  let ?a = "dropWhile is_space s"
  have a: "?a = [] \<or> \<not> is_space (hd ?a)"
    using hd_dropWhile [of is_space s] by blast
  have "dropWhile is_space (trim s) = trim s"
    unfolding trim_def using a by (rule dropWhile_rev_dropWhile)
  then show ?thesis
    by (simp add: trim_def [of "trim s"]) (simp add: trim_def)
qed

lemma trim_cleanValue: "trim (cleanValue s) = cleanValue s"
  by (simp add: cleanValue_def trim_idem)

lemma trim_extractField: "trim (extractField c l) = extractField c l"
  by (simp add: extractField_fieldEnd trim_cleanValue Let_def split: option.splits)

subsection \<open>The command line\<close>

text \<open>
  C9. When the input path does not exist, the entry point reports that the template was
  not found, exits with code 1 and writes no file, and the \<^verbatim>\<open>parse\<close> step of the pipeline
  reports the same and returns false. A document that exists is never fatal, whatever its
  text: the exit code is 0 and nothing is reported.
\<close>

theorem missing_template_is_fatal:
  "(fs path = None \<longrightarrow>
      cli_main fs path today =
        \<lparr>exit_code = 1, cli_errors = [TemplateNotFound path], cli_written = []\<rparr>
      \<and> parse fs path today =
        \<lparr>parse_ok = False, parse_errors = [TemplateNotFound path], parse_written = []\<rparr>)
   \<and> (fs path = Some (File raw) \<longrightarrow>
      exit_code (cli_main fs path today) = 0 \<and> cli_errors (cli_main fs path today) = []
      \<and> parse_ok (parse fs path today) \<and> parse_errors (parse fs path today) = [])"
  by (simp add: cli_main_def parse_def existsSync_def parseTemplate_def readFileSync_def)

theorem missing_template_is_fatal_witness:
  "exit_code (cli_main (\<lambda>p. None) ''TEMPLATE.md'' ''2025-01-01'') = 1
   \<and> cli_written (cli_main (\<lambda>p. None) ''TEMPLATE.md'' ''2025-01-01'') = []
   \<and> parse_written (parse (\<lambda>p. None) ''TEMPLATE.md'' ''2025-01-01'') = []
   \<and> exit_code (cli_main (\<lambda>p. if p = ''TEMPLATE.md'' then Some (File '''') else None)
                   ''TEMPLATE.md'' ''2025-01-01'') = 0"
  using missing_template_is_fatal
      [where fs = "\<lambda>p. None" and path = "''TEMPLATE.md''" and today = "''2025-01-01''"]
    missing_template_is_fatal
      [where fs = "\<lambda>p. if p = ''TEMPLATE.md'' then Some (File '''') else None"
         and path = "''TEMPLATE.md''" and raw = "''''" and today = "''2025-01-01''"]
  by simp

subsection \<open>The parse result\<close>

lemma endpoints_of_profile: "map fst (js_ProfileData d) = endpoint_names"
  by (simp add: js_ProfileData_def endpoint_names_def)

text \<open>
  C10. For every document text the result of the parser holds the nine records, in the
  order about, narrative, thesis, accomplishments, track-record, experience, seeking,
  cultural-fit, skills, each with the fields of its interface and none of them undefined;
  reading an existing file always gives such a result. For the empty document all nine
  records are there and empty, and it is \<^const>\<open>writeEndpointFiles\<close> that leaves them out: it
  writes the directory file only.
\<close>

theorem parse_result_has_nine_records:
  "map fst (js_ProfileData (parseDocument raw)) = endpoint_names
   \<and> (\<forall>(e, v) \<in> set (js_ProfileData (parseDocument raw)).
         object_keys v = interface_fields e \<and> JUndefined \<notin> set (object_values v))
   \<and> (fs path = Some (File raw) \<longrightarrow> parseTemplate fs path = Inr (parseDocument raw))
   \<and> list_all (\<lambda>(e, v). isEmptyData v) (js_ProfileData (parseDocument ''''))
   \<and> map fst (writeEndpointFiles (parseDocument '''') version today) = [''root.json'']"
proof (intro conjI)
  show "map fst (js_ProfileData (parseDocument raw)) = endpoint_names"
    by (rule endpoints_of_profile)
  show "\<forall>(e, v) \<in> set (js_ProfileData (parseDocument raw)).
          object_keys v = interface_fields e \<and> JUndefined \<notin> set (object_values v)"
    by (simp add: js_ProfileData_def interface_fields_def js_AboutData_def js_NarrativeData_def
        js_ThesisData_def js_AccomplishmentsData_def js_TrackRecordData_def
        js_ExperienceData_def js_SeekingData_def js_CulturalFitData_def js_SkillsData_def
        js_strings_def)
  show "fs path = Some (File raw) \<longrightarrow> parseTemplate fs path = Inr (parseDocument raw)"
    by (simp add: parseTemplate_def readFileSync_def)
  show "list_all (\<lambda>(e, v). isEmptyData v) (js_ProfileData (parseDocument ''''))"
    by code_simp
  show "map fst (writeEndpointFiles (parseDocument '''') version today) = [''root.json'']"
    by code_simp
qed

theorem parse_result_has_nine_records_witness:
  "map fst (js_ProfileData (parseDocument ''## About\<newline>**Name:** Ada'')) = endpoint_names
   \<and> parseTemplate (\<lambda>p. if p = ''TEMPLATE.md'' then Some (File ''## About\<newline>**Name:** Ada'') else None)
        ''TEMPLATE.md'' = Inr (parseDocument ''## About\<newline>**Name:** Ada'')"
  using parse_result_has_nine_records
    [where raw = "''## About\<newline>**Name:** Ada''"
       and fs = "\<lambda>p. if p = ''TEMPLATE.md'' then Some (File ''## About\<newline>**Name:** Ada'') else None"
       and path = "''TEMPLATE.md''"]
  by simp

subsection \<open>The omission of empty records\<close>

lemma isEmptyData_strings [simp]: "isEmptyData (js_strings xs) \<longleftrightarrow> xs = []"
  by (simp add: js_strings_def)

lemma endpoint_value:
  "(\<exists>v. (''about'', v) \<in> set (js_ProfileData d) \<and> P v) \<longleftrightarrow> P (js_AboutData (about d))"
  "(\<exists>v. (''narrative'', v) \<in> set (js_ProfileData d) \<and> P v) \<longleftrightarrow> P (js_NarrativeData (narrative d))"
  "(\<exists>v. (''thesis'', v) \<in> set (js_ProfileData d) \<and> P v) \<longleftrightarrow> P (js_ThesisData (thesis d))"
  "(\<exists>v. (''accomplishments'', v) \<in> set (js_ProfileData d) \<and> P v)
     \<longleftrightarrow> P (js_AccomplishmentsData (accomplishments d))"
  "(\<exists>v. (''track-record'', v) \<in> set (js_ProfileData d) \<and> P v)
     \<longleftrightarrow> P (js_TrackRecordData (track_record d))"
  "(\<exists>v. (''experience'', v) \<in> set (js_ProfileData d) \<and> P v)
     \<longleftrightarrow> P (js_ExperienceData (experience d))"
  "(\<exists>v. (''seeking'', v) \<in> set (js_ProfileData d) \<and> P v) \<longleftrightarrow> P (js_SeekingData (seeking d))"
  "(\<exists>v. (''cultural-fit'', v) \<in> set (js_ProfileData d) \<and> P v)
     \<longleftrightarrow> P (js_CulturalFitData (cultural_fit d))"
  "(\<exists>v. (''skills'', v) \<in> set (js_ProfileData d) \<and> P v) \<longleftrightarrow> P (js_SkillsData (skills d))"
  by (simp_all add: js_ProfileData_def)

text \<open>The fields of a parsed record are trimmed, so that \<^const>\<open>isEmptyData\<close> finds a record
  empty exactly when all its fields, lists and tables are empty.\<close>

lemma parsed_record_empty:
  "isEmptyData (js_AboutData (about (parseDocument raw))) \<longleftrightarrow> record_unset (parseDocument raw) ''about''"
  "isEmptyData (js_NarrativeData (narrative (parseDocument raw)))
     \<longleftrightarrow> record_unset (parseDocument raw) ''narrative''"
  "isEmptyData (js_ThesisData (thesis (parseDocument raw))) \<longleftrightarrow> record_unset (parseDocument raw) ''thesis''"
  "isEmptyData (js_AccomplishmentsData (accomplishments (parseDocument raw)))
     \<longleftrightarrow> record_unset (parseDocument raw) ''accomplishments''"
  "isEmptyData (js_TrackRecordData (track_record (parseDocument raw)))
     \<longleftrightarrow> record_unset (parseDocument raw) ''track-record''"
  "isEmptyData (js_ExperienceData (experience (parseDocument raw)))
     \<longleftrightarrow> record_unset (parseDocument raw) ''experience''"
  "isEmptyData (js_SeekingData (seeking (parseDocument raw))) \<longleftrightarrow> record_unset (parseDocument raw) ''seeking''"
  "isEmptyData (js_CulturalFitData (cultural_fit (parseDocument raw)))
     \<longleftrightarrow> record_unset (parseDocument raw) ''cultural-fit''"
  "isEmptyData (js_SkillsData (skills (parseDocument raw))) \<longleftrightarrow> record_unset (parseDocument raw) ''skills''"
  by (simp_all add: record_unset_def parseDocument_def Let_def js_AboutData_def js_NarrativeData_def
     js_ThesisData_def js_AccomplishmentsData_def js_TrackRecordData_def js_ExperienceData_def
     js_SeekingData_def js_CulturalFitData_def js_SkillsData_def trim_extractField)

lemma endpointLoop_names:
  "map fst (endpointLoop meta es acc) =
     map fst acc @ map (\<lambda>(e, v). e @ ''.json'') (filter (\<lambda>(e, v). \<not> isEmptyData v) es)"
  by (induction meta es acc rule: endpointLoop.induct) (simp_all add: Let_def)

lemma written_names:
  "map fst (writeEndpointFiles d version today) =
     map (\<lambda>(e, v). e @ ''.json'') (filter (\<lambda>(e, v). \<not> isEmptyData v) (js_ProfileData d))
     @ [''root.json'']"
  by (simp add: writeEndpointFiles_def Let_def endpointLoop_names)

lemma root_not_endpoint: "(e, v) \<in> set (js_ProfileData d) \<Longrightarrow> e @ ''.json'' \<noteq> ''root.json''"
proof -
  assume "(e, v) \<in> set (js_ProfileData d)"
  then have "e \<in> set (map fst (js_ProfileData d))" by force
  then have "e \<in> set endpoint_names" by (simp only: endpoints_of_profile)
  then show ?thesis by (auto simp: endpoint_names_def)
qed

lemma listing_names:
  "directory_listing (writeEndpointFiles d version today) =
     map (\<lambda>(e, v). ''GET /'' @ e) (filter (\<lambda>(e, v). \<not> isEmptyData v) (js_ProfileData d))"
proof -
  let ?w = "endpointLoop [(''api_version'', JString version), (''last_updated'', JString today),
      (''source'', JString ''Living Resume API''),
      (''note'', JString ''Machine-readable professional profile'')] (js_ProfileData d) []"
  have "''root.json'' \<notin> fst ` set ?w"
  proof
    assume "''root.json'' \<in> fst ` set ?w"
    then have "''root.json'' \<in> set (map fst ?w)" by simp
    then obtain e v where "(e, v) \<in> set (js_ProfileData d)" "e @ ''.json'' = ''root.json''"
      unfolding endpointLoop_names by auto
    then show False
      using root_not_endpoint by blast
  qed
  then have "map_of ?w ''root.json'' = None"
    by (simp add: map_of_eq_None_iff)
  then show ?thesis
    by (simp add: directory_listing_def writeEndpointFiles_def Let_def map_add_def
        comp_def case_prod_unfold)
qed

lemma json_name_inj: "(\<lambda>(e, v). e @ ''.json'') p = e' @ ''.json'' \<longleftrightarrow> fst p = e'"
  by (cases p) simp

text \<open>
  C6. For every parsed profile and each of the nine endpoints: the endpoint file is written
  exactly when the record is not empty (some field, list or table of it is not empty), and
  the endpoint is in the directory listing of \<^verbatim>\<open>root.json\<close> exactly then.
\<close>

theorem omission_law:
  assumes "e \<in> set endpoint_names"
  shows "(e @ ''.json'' \<in> fst ` set (writeEndpointFiles (parseDocument raw) version today)
            \<longleftrightarrow> \<not> record_unset (parseDocument raw) e)
       \<and> (''GET /'' @ e \<in> set (directory_listing (writeEndpointFiles (parseDocument raw) version today))
            \<longleftrightarrow> \<not> record_unset (parseDocument raw) e)"
proof -
  let ?data = "parseDocument raw"
  let ?written = "writeEndpointFiles ?data version today"
  let ?kept = "filter (\<lambda>(e, v). \<not> isEmptyData v) (js_ProfileData ?data)"
  have kept: "e \<in> fst ` set ?kept \<longleftrightarrow> \<not> record_unset ?data e"
  proof -
    have "e \<in> fst ` set ?kept \<longleftrightarrow> (\<exists>v. (e, v) \<in> set (js_ProfileData ?data) \<and> \<not> isEmptyData v)"
      by force
    also have "\<dots> \<longleftrightarrow> \<not> record_unset ?data e"
    proof -
      have "e = ''about'' \<or> e = ''narrative'' \<or> e = ''thesis'' \<or> e = ''accomplishments''
          \<or> e = ''track-record'' \<or> e = ''experience'' \<or> e = ''seeking''
          \<or> e = ''cultural-fit'' \<or> e = ''skills''"
        using assms by (simp add: endpoint_names_def)
      then show ?thesis
        by (elim disjE) (simp_all only: endpoint_value parsed_record_empty)
    qed
    finally show ?thesis .
  qed
  have "fst ` set ?written = set (map fst ?written)" by simp
  also have "\<dots> = (\<lambda>(e, v). e @ ''.json'') ` set ?kept \<union> {''root.json''}"
    unfolding written_names by simp
  finally have w: "e @ ''.json'' \<in> fst ` set ?written \<longleftrightarrow> e \<in> fst ` set ?kept"
    using assms by (auto simp: endpoint_names_def image_iff json_name_inj case_prod_unfold)
  have l: "''GET /'' @ e \<in> set (directory_listing ?written) \<longleftrightarrow> e \<in> fst ` set ?kept"
    unfolding listing_names by (auto simp: image_iff case_prod_unfold)
  from kept w l show ?thesis by simp
qed

theorem omission_law_witness:
  "''about'' \<in> set endpoint_names
   \<and> \<not> record_unset (parseDocument ''## About\<newline>**Name:** Ada'') ''about''
   \<and> ''about.json'' \<in> fst ` set (writeEndpointFiles (parseDocument ''## About\<newline>**Name:** Ada'')
                                   ''1.0.0'' ''2025-01-01'')
   \<and> ''GET /about'' \<in> set (directory_listing
                              (writeEndpointFiles (parseDocument ''## About\<newline>**Name:** Ada'')
                                 ''1.0.0'' ''2025-01-01''))"
proof -
  have a: "''about'' \<in> set endpoint_names"
    by (simp add: endpoint_names_def)
  have b: "\<not> record_unset (parseDocument ''## About\<newline>**Name:** Ada'') ''about''"
    by code_simp
  show ?thesis
    using omission_law [OF a, of "''## About\<newline>**Name:** Ada''" "''1.0.0''" "''2025-01-01''"] a b
    by simp
qed

subsection \<open>Annotation comments\<close>

lemma indexOf_Cons_0: "indexOf (c # cs) p = Some 0 \<longleftrightarrow> startsWith (c # cs) p"
  by (simp add: indexOf_def del: startsWith.simps)

lemma indexOf_Cons_Suc:
  "indexOf (c # cs) p = Some (Suc k) \<longleftrightarrow> \<not> startsWith (c # cs) p \<and> indexOf cs p = Some k"
  by (auto simp add: indexOf_def simp del: startsWith.simps)

lemma stripComments_first_span:
  assumes "indexOf raw ''<!--'' = Some i" and "indexOf (drop (i + 4) raw) ''-->'' = Some j"
  shows "stripComments raw = take i raw @ stripComments (drop (i + 4 + j + 3) raw)"
  using assms
proof (induction raw arbitrary: i)
  case Nil
  then show ?case by (simp add: indexOf_def)
next
  case (Cons c cs)
  show ?case
  proof (cases i)
    case 0
    with Cons.prems have sw: "startsWith (c # cs) ''<!--''" and j: "indexOf (drop 3 cs) ''-->'' = Some j"
      by (simp_all add: indexOf_Cons_0 del: startsWith.simps)
    have "stripComments (c # cs) = stripComments (drop (3 + j + 3) cs)"
      using sw j by (simp del: startsWith.simps)
    moreover have "drop (i + 4 + j + 3) (c # cs) = drop (3 + j + 3) cs"
      using 0 by (simp add: drop_Cons')
    ultimately show ?thesis using 0 by (simp del: stripComments.simps)
  next
    case (Suc k)
    have d: "drop (Suc k + 4) (c # cs) = drop (k + 4) cs"
      by (simp only: add_Suc drop_Suc_Cons)
    from Cons.prems(1) have "indexOf (c # cs) ''<!--'' = Some (Suc k)"
      unfolding Suc .
    then have nsw: "\<not> startsWith (c # cs) ''<!--''" and k: "indexOf cs ''<!--'' = Some k"
      unfolding indexOf_Cons_Suc by blast+
    from Cons.prems(2) have j: "indexOf (drop (k + 4) cs) ''-->'' = Some j"
      unfolding Suc d .
    have "stripComments (c # cs) = c # stripComments cs"
      using nsw by (simp del: startsWith.simps)
    also have "stripComments cs = take k cs @ stripComments (drop (k + 4 + j + 3) cs)"
      using k j by (rule Cons.IH)
    finally show ?thesis using Suc by (simp add: drop_Cons' del: stripComments.simps)
  qed
qed

lemma trim_eq_Nil: "trim s = [] \<longleftrightarrow> (\<forall>c \<in> set s. is_space c)"
proof
  assume "trim s = []"
  then have "dropWhile is_space (rev (dropWhile is_space s)) = []"
    by (simp add: trim_def)
  then have "\<forall>c \<in> set (dropWhile is_space s). is_space c"
    by (simp add: dropWhile_eq_Nil_conv)
  then have "dropWhile is_space s = []"
    using hd_dropWhile [of is_space s] hd_in_set [of "dropWhile is_space s"] by blast
  then show "\<forall>c \<in> set s. is_space c"
    by (simp add: dropWhile_eq_Nil_conv)
next
  assume "\<forall>c \<in> set s. is_space c"
  then have e: "dropWhile is_space s = []"
    by (simp add: dropWhile_eq_Nil_conv)
  show "trim s = []" unfolding trim_def e by simp
qed

lemma trim_hd: "trim s \<noteq> [] \<Longrightarrow> \<not> is_space (hd (trim s))"
proof -
  assume ne: "trim s \<noteq> []"
  have "dropWhile is_space (trim s) = trim s"
    using trim_idem [of s] ne
    by (metis dropWhile_rev_dropWhile hd_dropWhile trim_def)
  with ne show ?thesis
    by (simp add: dropWhile_eq_self_iff)
qed

lemma cleanValue_eq_Nil: "cleanValue s = [] \<longleftrightarrow> (\<forall>c \<in> set (stripComments s). is_space c)"
proof (cases "trim (stripComments s) = []")
  case True
  have "cleanValue s = []"
    unfolding cleanValue_def True by simp
  with True show ?thesis by (simp add: trim_eq_Nil)
next
  case False
  then obtain c cs where t: "trim (stripComments s) = c # cs"
    by (cases "trim (stripComments s)") auto
  with trim_hd [OF False] have c: "\<not> is_space c" by simp
  then have "c \<noteq> CHR 0x0A" by (auto simp: is_space_def)
  then have "cleanValue s = trim (c # replace_runs (\<lambda>c. c = CHR 0x0A) (CHR '' '') False cs)"
    unfolding cleanValue_def t by simp
  also have "\<dots> \<noteq> []"
    using c by (auto simp: trim_eq_Nil)
  finally show ?thesis using False by (simp add: trim_eq_Nil)
qed

text \<open>
  C7, as amended. When the raw text of a field or of a list item contains an annotation
  span, cleaning deletes the span, from the first \<^verbatim>\<open><!--\<close> to the first \<^verbatim>\<open>-->\<close> behind it, and
  keeps the text before it and the cleaned text behind it. The cleaned value is empty
  exactly when nothing but whitespace is left outside the deleted spans.
\<close>

theorem annotation_spans_are_removed:
  assumes "indexOf raw ''<!--'' = Some i" and "indexOf (drop (i + 4) raw) ''-->'' = Some j"
  shows "stripComments raw = take i raw @ stripComments (drop (i + 4 + j + 3) raw)
       \<and> (cleanValue raw = '''' \<longleftrightarrow>
            (\<forall>c \<in> set (take i raw @ stripComments (drop (i + 4 + j + 3) raw)). is_space c))"
  using stripComments_first_span [OF assms] by (simp only: cleanValue_eq_Nil simp_thms)

theorem annotation_spans_are_removed_witness:
  "indexOf ''Jane <!-- Your full name -->'' ''<!--'' = Some 5
   \<and> indexOf (drop (5 + 4) ''Jane <!-- Your full name -->'') ''-->'' = Some 16
   \<and> stripComments ''Jane <!-- Your full name -->'' = ''Jane ''
   \<and> cleanValue ''Jane <!-- Your full name -->'' \<noteq> ''''"
proof -
  have a: "indexOf ''Jane <!-- Your full name -->'' ''<!--'' = Some 5" by code_simp
  have b: "indexOf (drop (5 + 4) ''Jane <!-- Your full name -->'') ''-->'' = Some 16" by code_simp
  show ?thesis
    using annotation_spans_are_removed [OF a b] a b by (simp add: is_space_def)
qed

text \<open>
  The claim as stated fails: a value with real content next to an annotation span is not
  empty after cleaning, as a field and as a list item.
\<close>

theorem placeholder_law_counterexample:
  "has_annotation ''Jane <!-- Your full name -->''
   \<and> cleanValue ''Jane <!-- Your full name -->'' = ''Jane''
   \<and> extractField ''**Name:** Jane <!-- Your full name -->'' ''Name'' = ''Jane''
   \<and> extractBulletList ''### Implications\<newline>- Ship it <!-- example -->'' ''### Implications''
       = [''Ship it'']"
  by code_simp

subsection \<open>Cleaning\<close>

text \<open>\<^verbatim>\<open>trim()\<close> takes away exactly the whitespace at the two ends.\<close>

lemma rev_dropWhile_rev:
  "rev (dropWhile P (rev t)) = take (length t - length (takeWhile P (rev t))) t"
proof -
  let ?a = "takeWhile P (rev t)" and ?b = "dropWhile P (rev t)"
  have "rev ?b @ rev ?a = rev (?a @ ?b)" by (simp only: rev_append)
  also have "\<dots> = rev (rev t)" by (simp only: takeWhile_dropWhile_id)
  finally have t: "t = rev ?b @ rev ?a" by (simp only: rev_rev_ident)
  have "length t = length ?b + length ?a"
    by (subst t) simp
  then have len: "length t - length ?a = length (rev ?b)" by simp
  have "take (length (rev ?b)) (rev ?b @ rev ?a) = rev ?b" by simp
  then have "take (length (rev ?b)) t = rev ?b" using t by simp
  then show ?thesis unfolding len by simp
qed

lemma trim_outer_stripped: "trim s = outer_stripped s"
  unfolding trim_def outer_stripped_def Let_def by (rule rev_dropWhile_rev)

lemma pieces_nonempty [simp]: "pieces X s \<noteq> []"
  by (cases s) (auto split: list.splits)

lemma pieces_Cons:
  "pieces X (c # cs) =
     (if X c then [] # pieces X cs else (c # hd (pieces X cs)) # tl (pieces X cs))"
  using pieces_nonempty [of X cs] by (cases "pieces X cs") auto

lemma last_pieces: "s \<noteq> [] \<Longrightarrow> \<not> X (last s) \<Longrightarrow> last (pieces X s) \<noteq> []"
proof (induction s)
  case Nil
  then show ?case by simp
next
  case (Cons c cs)
  show ?case
  proof (cases "cs = []")
    case True
    with Cons.prems show ?thesis by simp
  next
    case False
    with Cons have IH: "last (pieces X cs) \<noteq> []" by simp
    note pieces.simps(2) [simp del] pieces_Cons [simp]
    show ?thesis
    proof (cases "tl (pieces X cs) = []")
      case True
      then have "pieces X cs = [hd (pieces X cs)]"
        using pieces_nonempty [of X cs] by (cases "pieces X cs") auto
      with IH have "hd (pieces X cs) \<noteq> []" by (cases "pieces X cs") auto
      then show ?thesis using True IH by simp
    next
      case F2: False
      then have "last (tl (pieces X cs)) = last (pieces X cs)"
        by (simp add: last_tl)
      with IH F2 show ?thesis by simp
    qed
  qed
qed

lemma words_of_nonempty: "s \<noteq> [] \<Longrightarrow> \<not> X (last s) \<Longrightarrow> words_of X s \<noteq> []"
proof -
  assume a: "s \<noteq> []" "\<not> X (last s)"
  have "last (pieces X s) \<in> set (pieces X s)" by simp
  with last_pieces [where s = s and X = X, OF a] show ?thesis
    unfolding words_of_def by (auto simp: filter_empty_conv)
qed

lemma join_with_Cons_Cons: "join_with r ((c # p) # ws) = c # join_with r (p # ws)"
  by (cases ws) auto

lemma join_with_sep: "ws \<noteq> [] \<Longrightarrow> join_with r (w # ws) = w @ r # join_with r ws"
  by (cases ws) auto

lemma words_of_sep: "X c \<Longrightarrow> words_of X (c # cs) = words_of X cs"
  by (simp add: words_of_def)

lemma words_of_Cons:
  "\<not> X c \<Longrightarrow> words_of X (c # cs) = (c # hd (pieces X cs)) # filter (\<lambda>p. p \<noteq> []) (tl (pieces X cs))"
  by (simp add: words_of_def pieces_Cons del: pieces.simps(2))

lemma words_of_hd:
  "words_of X s = (if hd (pieces X s) = [] then filter (\<lambda>p. p \<noteq> []) (tl (pieces X s))
                   else hd (pieces X s) # filter (\<lambda>p. p \<noteq> []) (tl (pieces X s)))"
  using pieces_nonempty [of X s] by (cases "pieces X s") (auto simp: words_of_def)

lemma hd_pieces: "hd (pieces X s) = [] \<longleftrightarrow> s = [] \<or> X (hd s)"
  by (cases s) (auto simp add: pieces_Cons simp del: pieces.simps(2))

text \<open>
  Replacing the runs of a character class by one separator gives the words joined by the
  separator, when the text does not end with a character of the class; a run at the very
  start leaves one separator in front.
\<close>

lemma replace_runs_words:
  assumes "s \<noteq> [] \<longrightarrow> \<not> X (last s)"
  shows "replace_runs X r True s = join_with r (words_of X s)
       \<and> replace_runs X r False s =
           (if s \<noteq> [] \<and> X (hd s) then r # join_with r (words_of X s)
            else join_with r (words_of X s))"
  using assms
proof (induction s)
  case Nil
  show ?case by (simp add: words_of_def)
next
  case (Cons c cs)
  show ?case
  proof (cases "X c")
    case True
    with Cons.prems have ne: "cs \<noteq> []" by auto
    with Cons.prems have "cs \<noteq> [] \<longrightarrow> \<not> X (last cs)" by simp
    then have IH: "replace_runs X r True cs = join_with r (words_of X cs)"
      using Cons.IH by blast
    show ?thesis using True IH by (simp add: words_of_sep)
  next
    case False
    have l: "cs \<noteq> [] \<longrightarrow> \<not> X (last cs)" using Cons.prems by auto
    then have IH: "replace_runs X r False cs =
           (if cs \<noteq> [] \<and> X (hd cs) then r # join_with r (words_of X cs)
            else join_with r (words_of X cs))"
      using Cons.IH by blast
    let ?p = "hd (pieces X cs)" and ?rest = "filter (\<lambda>p. p \<noteq> []) (tl (pieces X cs))"
    have w: "words_of X (c # cs) = (c # ?p) # ?rest"
      using False by (rule words_of_Cons)
    have "c # replace_runs X r False cs = join_with r ((c # ?p) # ?rest)"
    proof (cases "cs = []")
      case True
      then show ?thesis by simp
    next
      case ne: False
      show ?thesis
      proof (cases "X (hd cs)")
        case True
        then have p: "?p = []" using ne by (simp add: hd_pieces)
        then have wc: "words_of X cs = ?rest" by (simp add: words_of_hd)
        have "?rest \<noteq> []" using words_of_nonempty [of cs X] ne l wc by simp
        then have "join_with r ([c] # ?rest) = [c] @ r # join_with r ?rest"
          by (rule join_with_sep)
        then show ?thesis using IH True ne p wc by simp
      next
        case F3: False
        then have p: "?p \<noteq> []" using ne by (simp add: hd_pieces)
        then have wc: "words_of X cs = ?p # ?rest" by (simp add: words_of_hd)
        show ?thesis using IH F3 wc by (simp add: join_with_Cons_Cons)
      qed
    qed
    then show ?thesis using False w by simp
  qed
qed

lemma last_replace_runs:
  "s \<noteq> [] \<Longrightarrow> \<not> X (last s) \<Longrightarrow>
     replace_runs X r b s \<noteq> [] \<and> last (replace_runs X r b s) = last s"
proof (induction s arbitrary: b)
  case Nil
  then show ?case by simp
next
  case (Cons c cs)
  show ?case
  proof (cases "cs = []")
    case True
    with Cons.prems show ?thesis by simp
  next
    case False
    with Cons.prems have "\<not> X (last cs)" by simp
    with False have "\<And>b. replace_runs X r b cs \<noteq> [] \<and> last (replace_runs X r b cs) = last cs"
      using Cons.IH by blast
    with False show ?thesis by simp
  qed
qed

lemma trim_id: "x \<noteq> [] \<Longrightarrow> \<not> is_space (hd x) \<Longrightarrow> \<not> is_space (last x) \<Longrightarrow> trim x = x"
proof -
  assume a: "x \<noteq> []" "\<not> is_space (hd x)" "\<not> is_space (last x)"
  then have 1: "dropWhile is_space x = x" by (cases x) auto
  have "rev x \<noteq> []" "hd (rev x) = last x" using a(1) by (simp_all add: hd_rev)
  with a(3) have 2: "dropWhile is_space (rev x) = rev x" by (simp only: dropWhile_eq_self_iff) simp
  show ?thesis unfolding trim_def 1 2 by simp
qed

lemma trim_last: "trim s \<noteq> [] \<Longrightarrow> \<not> is_space (last (trim s))"
proof -
  assume ne: "trim s \<noteq> []"
  let ?d = "dropWhile is_space (rev (dropWhile is_space s))"
  have t: "trim s = rev ?d" by (simp add: trim_def)
  with ne have d: "?d \<noteq> []" by simp
  then have "\<not> is_space (hd ?d)" by (rule hd_dropWhile)
  moreover have "last (rev ?d) = hd ?d" using d by (simp add: last_rev)
  ultimately show ?thesis unfolding t by simp
qed

lemma indexOf_Cons_None:
  "indexOf (c # cs) p = None \<longleftrightarrow> \<not> startsWith (c # cs) p \<and> indexOf cs p = None"
  by (auto simp add: indexOf_def simp del: startsWith.simps)

lemma indexOf_drop_None: "indexOf s p = None \<Longrightarrow> indexOf (drop m s) p = None"
proof (induction s arbitrary: m)
  case Nil
  then show ?case by simp
next
  case (Cons c cs)
  show ?case
  proof (cases m)
    case 0
    with Cons.prems show ?thesis by simp
  next
    case (Suc k)
    from Cons.prems have "indexOf cs p = None"
      unfolding indexOf_Cons_None by blast
    then show ?thesis unfolding Suc drop_Suc_Cons by (rule Cons.IH)
  qed
qed

lemma stripComments_no_opener: "indexOf s ''<!--'' = None \<Longrightarrow> stripComments s = s"
proof (induction s)
  case Nil
  show ?case by simp
next
  case (Cons c cs)
  from Cons.prems have "\<not> startsWith (c # cs) ''<!--''" and "indexOf cs ''<!--'' = None"
    unfolding indexOf_Cons_None by blast+
  with Cons.IH show ?case by (simp del: startsWith.simps)
qed

lemma stripComments_no_closer:
  assumes "indexOf raw ''<!--'' = Some i" and "indexOf (drop (i + 4) raw) ''-->'' = None"
  shows "stripComments raw = raw"
  using assms
proof (induction raw arbitrary: i)
  case Nil
  then show ?case by (simp add: indexOf_def)
next
  case (Cons c cs)
  have tail: "stripComments cs = cs" if n: "indexOf (drop 3 cs) ''-->'' = None"
  proof (cases "indexOf cs ''<!--''")
    case None
    then show ?thesis by (rule stripComments_no_opener)
  next
    case (Some k)
    have "drop (k + 4) cs = drop (Suc k) (drop 3 cs)" by (simp add: add.commute)
    then have "indexOf (drop (k + 4) cs) ''-->'' = None"
      using indexOf_drop_None [OF n, of "Suc k"] by simp
    with Some show ?thesis by (rule Cons.IH)
  qed
  show ?case
  proof (cases i)
    case 0
    with Cons.prems have sw: "startsWith (c # cs) ''<!--''" and j: "indexOf (drop 3 cs) ''-->'' = None"
      by (simp_all add: indexOf_Cons_0 del: startsWith.simps)
    have "stripComments (c # cs) = c # stripComments cs"
      using sw j by (simp del: startsWith.simps)
    with tail [OF j] show ?thesis by simp
  next
    case (Suc k)
    have d: "drop (Suc k + 4) (c # cs) = drop (k + 4) cs"
      by (simp only: add_Suc drop_Suc_Cons)
    from Cons.prems(1) have "indexOf (c # cs) ''<!--'' = Some (Suc k)"
      unfolding Suc .
    then have nsw: "\<not> startsWith (c # cs) ''<!--''" and k: "indexOf cs ''<!--'' = Some k"
      unfolding indexOf_Cons_Suc by blast+
    from Cons.prems(2) have j: "indexOf (drop (k + 4) cs) ''-->'' = None"
      unfolding Suc d .
    have "stripComments (c # cs) = c # stripComments cs"
      using nsw by (simp del: startsWith.simps)
    also have "stripComments cs = cs"
      using k j by (rule Cons.IH)
    finally show ?thesis .
  qed
qed

text \<open>The regular expression deletes exactly the annotation spans.\<close>

lemma stripComments_spans: "stripComments s = without_annotations s"
proof (induction s rule: without_annotations.induct)
  case (1 s)
  show ?case
  proof (cases "indexOf s ''<!--''")
    case None
    have "without_annotations s = s"
      by (subst without_annotations.simps) (simp only: None option.case)
    then show ?thesis
      by (simp only: stripComments_no_opener [OF None])
  next
    case (Some i)
    note i = this
    show ?thesis
    proof (cases "indexOf (drop (i + 4) s) ''-->''")
      case None
      have "without_annotations s = s"
        by (subst without_annotations.simps) (simp only: i None option.case)
      then show ?thesis
        by (simp only: stripComments_no_closer [OF i None])
    next
      case (Some j)
      have "stripComments s = take i s @ stripComments (drop (i + 4 + j + 3) s)"
        using i Some by (rule stripComments_first_span)
      also have "stripComments (drop (i + 4 + j + 3) s) = without_annotations (drop (i + 4 + j + 3) s)"
        using i Some by (rule 1)
      also have "take i s @ without_annotations (drop (i + 4 + j + 3) s) = without_annotations s"
        by (subst (2) without_annotations.simps) (simp only: i Some option.case)
      finally show ?thesis .
    qed
  qed
qed

lemma collapse_trimmed:
  assumes "t \<noteq> []" and "\<not> is_space (hd t)" and "\<not> is_space (last t)"
  shows "replace_runs (\<lambda>c. c = CHR 0x0A) (CHR '' '') False t = collapse_newlines t"
proof -
  have "\<not> hd t = CHR 0x0A" "\<not> last t = CHR 0x0A"
    using assms(2,3) by (auto simp: is_space_def)
  then show ?thesis
    using replace_runs_words [of t "\<lambda>c. c = CHR 0x0A" "CHR '' ''"] assms(1)
    by (simp add: collapse_newlines_def)
qed

text \<open>
  \<^const>\<open>cleanValue\<close> is the reference cleaning. Its last \<^verbatim>\<open>trim()\<close> changes nothing: after the
  first one the text neither begins nor ends with whitespace, and collapsing the line
  feeds leaves its first and last character as they are.
\<close>

lemma cleanValue_refines: "cleanValue s = spec_cleanValue s"
proof (cases "trim (stripComments s) = []")
  case True
  have "cleanValue s = []"
    unfolding cleanValue_def True by simp
  moreover have "spec_cleanValue s = []"
    unfolding spec_cleanValue_def stripComments_spans [symmetric] trim_outer_stripped [symmetric] True
    by (simp add: collapse_newlines_def words_of_def)
  ultimately show ?thesis by simp
next
  case False
  let ?t = "trim (stripComments s)"
  let ?u = "replace_runs (\<lambda>c. c = CHR 0x0A) (CHR '' '') False ?t"
  have h: "\<not> is_space (hd ?t)" using False by (rule trim_hd)
  have l: "\<not> is_space (last ?t)" using False by (rule trim_last)
  have nl: "\<not> last ?t = CHR 0x0A" using l by (auto simp: is_space_def)
  have u: "?u \<noteq> [] \<and> last ?u = last ?t"
    using False nl by (rule last_replace_runs)
  obtain c cs where t: "?t = c # cs" using False by (cases ?t) auto
  with h have "c \<noteq> CHR 0x0A" by (auto simp: is_space_def)
  then have "hd ?u = hd ?t" unfolding t by simp
  with u h l have "trim ?u = ?u" by (intro trim_id) simp_all
  then have "cleanValue s = ?u" by (simp add: cleanValue_def)
  also have "\<dots> = collapse_newlines ?t"
    using False h l by (rule collapse_trimmed)
  finally show ?thesis
    by (simp add: spec_cleanValue_def stripComments_spans trim_outer_stripped)
qed

text \<open>
  C1. For every span and label, \<^const>\<open>extractField\<close> returns the cleaned text that follows
  the first occurrence of the marker \<^verbatim>\<open>**label:**\<close> up to the earliest of the next field
  marker (\<^verbatim>\<open>\n**\<close> or \<^verbatim>\<open>\n- **\<close>), the next level-3 heading, the next horizontal rule and the
  end of the span, and the empty string when the marker does not occur. Cleaning is the
  reference cleaning: annotation spans deleted, outer whitespace stripped, line feeds
  collapsed. Extracting \<^verbatim>\<open>Title\<close> from \<^verbatim>\<open>**Title:** VP\n\n**Location:** Chicago\<close> gives \<^verbatim>\<open>VP\<close>.
\<close>

theorem extractField_refines_spec:
  "extractField span label = spec_extractField span label
   \<and> extractField ''**Title:** VP\<newline>\<newline>**Location:** Chicago'' ''Title'' = ''VP''
   \<and> extractField ''**Summary:**  Ten years<!-- how long -->\<newline>of planning \<newline>\<newline>**Title:** VP''
         ''Summary'' = ''Ten years of planning''"
proof (intro conjI)
  show "extractField span label = spec_extractField span label"
    by (simp add: extractField_fieldEnd spec_extractField_def take_fieldEnd cleanValue_refines
        Let_def split: option.splits)
  show "extractField ''**Title:** VP\<newline>\<newline>**Location:** Chicago'' ''Title'' = ''VP''"
    by code_simp
  show "extractField ''**Summary:**  Ten years<!-- how long -->\<newline>of planning \<newline>\<newline>**Title:** VP''
         ''Summary'' = ''Ten years of planning''"
    by code_simp
qed

subsection \<open>The list extractor\<close>

lemma bulletLoop_step:
  "bulletLoop (line # rest) items =
     (case bullet_item line of
        Some item \<Rightarrow> bulletLoop rest (items @ [item])
      | None \<Rightarrow> if bullet_stop line \<and> items \<noteq> [] then items else bulletLoop rest items)"
  by (auto simp: bullet_item_def bullet_stop_def bullet_line_def Let_def cleanValue_refines
      simp del: startsWith.simps)

lemma bulletLoop_skipped:
  "\<forall>l \<in> set skipped. bullet_item l = None \<Longrightarrow> bulletLoop (skipped @ rest) [] = bulletLoop rest []"
  by (induction skipped) (simp_all add: bulletLoop_step del: bulletLoop.simps(2))

lemma bulletLoop_body:
  assumes "items \<noteq> []" and "\<forall>l \<in> set body. \<not> bullet_stop l"
      and "rest = [] \<or> bullet_stop (hd rest)"
  shows "bulletLoop (body @ rest) items = items @ List.map_filter bullet_item body"
  using assms
proof (induction body arbitrary: items)
  case Nil
  then show ?case
    by (cases rest) (auto simp: bulletLoop_step List.map_filter_simps bullet_stop_def bullet_item_def
        simp del: bulletLoop.simps(2))
next
  case (Cons l body)
  then show ?case
    by (cases "bullet_item l") (simp_all add: bulletLoop_step List.map_filter_simps del: bulletLoop.simps(2))
qed

text \<open>
  C3, as amended. \<^const>\<open>extractBulletList\<close> reads the lines behind the first occurrence of
  the marker. Before the first item, blank lines, text lines and bullet lines that give no
  item are passed over; nothing is said here about a heading or a rule before the first
  item. From the first item on it collects the items of the bullet lines in their order,
  passes over the text lines, and stops at the first blank, heading or rule line; what
  follows that line is not read.
\<close>

theorem extractBulletList_reads_items:
  assumes "indexOf span marker = Some idx"
      and "split (CHR 0x0A) (drop (idx + length marker) span) = skipped @ body @ rest"
      and "\<forall>l \<in> set skipped. bullet_item l = None \<and> \<not> heading_or_rule l"
      and "body \<noteq> [] \<longrightarrow> bullet_item (hd body) \<noteq> None"
      and "\<forall>l \<in> set body. \<not> bullet_stop l"
      and "rest \<noteq> [] \<longrightarrow> body \<noteq> [] \<and> bullet_stop (hd rest)"
  shows "extractBulletList span marker = List.map_filter bullet_item body"
proof -
  have "\<forall>l \<in> set skipped. bullet_item l = None" using assms(3) by blast
  then have "extractBulletList span marker = bulletLoop (body @ rest) []"
    using assms(1,2) by (simp add: extractBulletList_def bulletLoop_skipped)
  also have "\<dots> = List.map_filter bullet_item body"
  proof (cases body)
    case Nil
    with assms(6) show ?thesis by (simp add: List.map_filter_simps)
  next
    case (Cons b bs)
    with assms(4) obtain item where item: "bullet_item b = Some item" by auto
    have "bulletLoop ((b # bs) @ rest) [] = bulletLoop (bs @ rest) [item]"
      by (simp add: bulletLoop_step item del: bulletLoop.simps(2))
    also have "\<dots> = [item] @ List.map_filter bullet_item bs"
      using assms(5,6) Cons by (intro bulletLoop_body) auto
    finally show ?thesis using Cons item by (simp add: List.map_filter_simps)
  qed
  finally show ?thesis .
qed

theorem extractBulletList_reads_items_witness:
  "extractBulletList ''### Implications\<newline>These follow:\<newline>\<newline>- <!-- first -->\<newline>- A\<newline>note\<newline>- B\<newline>\<newline>- C''
     ''### Implications''
     = [''A'', ''B'']"
proof -
  let ?span = "''### Implications\<newline>These follow:\<newline>\<newline>- <!-- first -->\<newline>- A\<newline>note\<newline>- B\<newline>\<newline>- C''"
  have 1: "indexOf ?span ''### Implications'' = Some 0"
    by code_simp
  have 2: "split (CHR 0x0A) (drop (0 + length ''### Implications'') ?span)
           = ['''', ''These follow:'', '''', ''- <!-- first -->'']
             @ [''- A'', ''note'', ''- B''] @ ['''', ''- C'']"
    by code_simp
  have 3: "\<forall>l \<in> set ['''', ''These follow:'', '''', ''- <!-- first -->''].
             bullet_item l = None \<and> \<not> heading_or_rule l"
    by code_simp
  have 4: "[''- A'', ''note'', ''- B''] \<noteq> [] \<longrightarrow> bullet_item (hd [''- A'', ''note'', ''- B'']) \<noteq> None"
    by code_simp
  have 5: "\<forall>l \<in> set [''- A'', ''note'', ''- B'']. \<not> bullet_stop l" by code_simp
  have 6: "['''', ''- C''] \<noteq> [] \<longrightarrow> [''- A'', ''note'', ''- B''] \<noteq> [] \<and> bullet_stop (hd ['''', ''- C''])"
    by code_simp
  have 7: "List.map_filter bullet_item [''- A'', ''note'', ''- B''] = [''A'', ''B'']" by code_simp
  show ?thesis
    using extractBulletList_reads_items [OF 1 2 3 4 5 6] 7 by simp
qed

text \<open>
  The claim as stated fails: a text line between two bullet lines does not end the list, and
  a blank line before the first item does not end it either.
\<close>

theorem bullet_list_counterexample:
  "extractBulletList ''### Implications\<newline>- A\<newline>note\<newline>- B'' ''### Implications'' = [''A'', ''B'']
   \<and> spec_extractBulletList ''### Implications\<newline>- A\<newline>note\<newline>- B'' ''### Implications'' = [''A'']
   \<and> extractBulletList ''### Implications\<newline>\<newline>- A'' ''### Implications'' = [''A'']
   \<and> spec_extractBulletList ''### Implications\<newline>\<newline>- A'' ''### Implications'' = []"
  by code_simp

text \<open>
  A heading or a rule before the first item does not end the list either: the test that
  stops at such a line is made only once an item has been collected, so that a list left
  without items takes the items of the subsection that follows it. The amended claim
  leaves this case out.
\<close>

lemma extractBulletList_heading_before_items:
  "extractBulletList ''### I Thrive In\<newline>\<newline>### Not Right For\<newline>\<newline>- Micromanagement''
     ''### I Thrive In'' = [''Micromanagement'']"
  by code_simp

subsection \<open>The table extractor\<close>























subsection \<open>The role blocks\<close>

lemma bulletLoop_nonempty:
  "\<forall>x \<in> set items. x \<noteq> [] \<Longrightarrow> \<forall>x \<in> set (bulletLoop ls items). x \<noteq> []"
proof (induction ls arbitrary: items)
  case Nil
  then show ?case by simp
next
  case (Cons l ls)
  show ?case
  proof (cases "bullet_item l")
    case None
    with Cons show ?thesis
      by (simp add: bulletLoop_step del: bulletLoop.simps(2))
  next
    case (Some item)
    then have "item \<noteq> []"
      by (auto simp: bullet_item_def Let_def split: if_splits)
    with Some Cons.prems have "\<forall>x \<in> set (bulletLoop ls (items @ [item])). x \<noteq> []"
      by (intro Cons.IH) auto
    with Some show ?thesis
      by (simp add: bulletLoop_step del: bulletLoop.simps(2))
  qed
qed

lemma extractBulletList_nonempty: "filter (\<lambda>c. c \<noteq> []) (extractBulletList b m) = extractBulletList b m"
proof -
  have "\<forall>x \<in> set (extractBulletList b m). x \<noteq> []"
    using bulletLoop_nonempty [of "[]"] by (auto simp: extractBulletList_def split: option.splits)
  then show ?thesis by (simp add: filter_id_conv)
qed

lemma roleHeading_starts: "roleHeading t \<noteq> None \<longleftrightarrow> starts_role_heading t"
proof -
  have len: "length ''### Role '' = 9" by simp
  have sw: "startsWith t ''### Role '' = (take 9 t = ''### Role '')"
    unfolding startsWith_prefix len ..
  show ?thesis
  proof (cases "9 < length t")
    case True
    then have "drop 9 t = t ! 9 # drop 10 t"
      using Cons_nth_drop_Suc [of 9 t] by simp
    with True show ?thesis
      unfolding roleHeading_def starts_role_heading_def sw by simp
  next
    case False
    then show ?thesis
      unfolding roleHeading_def starts_role_heading_def sw by simp
  qed
qed

lemma roleHeading_length:
  "starts_role_heading t \<Longrightarrow>
     roleHeading t = Some (9 + length (takeWhile (\<lambda>c. c \<noteq> CHR 0x0A) (drop 9 t)))"
  using roleHeading_starts [of t] by (auto simp: roleHeading_def split: if_splits)

lemma starts_role_heading_append:
  assumes "starts_role_heading (t @ rest)" and "t \<noteq> []"
      and "rest = [] \<or> is_line_terminator (last t)"
  shows "starts_role_heading t"
proof (cases "9 < length t")
  case True
  with assms(1) show ?thesis
    by (simp add: starts_role_heading_def nth_append)
next
  case False
  then have "take 9 (t @ rest) = t @ take (9 - length t) rest" by simp
  with assms(1) have "set t \<subseteq> set ''### Role ''"
    unfolding starts_role_heading_def by (metis Un_upper1 set_append)
  with assms(2) have "last t \<in> set ''### Role ''"
    using last_in_set by blast
  then have "\<not> is_line_terminator (last t)"
    by (auto simp: is_line_terminator_def)
  with assms(3) have "rest = []" by simp
  with assms(1) show ?thesis by simp
qed

lemma split_re_body:
  assumes "heading_free bol b" and "rest = [] \<or> b = [] \<or> is_line_terminator (last b)"
  shows "split_re roleHeading bol acc (b @ rest) =
           split_re roleHeading (if b = [] then bol else is_line_terminator (last b)) (acc @ b) rest"
  using assms
proof (induction b arbitrary: bol acc)
  case Nil
  then show ?case by simp
next
  case (Cons c cs)
  have no: "(if bol then roleHeading (c # cs @ rest) else None) = None"
  proof (cases bol)
    case True
    with Cons.prems(1) have "\<not> starts_role_heading (c # cs)" by simp
    then have "\<not> starts_role_heading ((c # cs) @ rest)"
      using starts_role_heading_append [of "c # cs" rest] Cons.prems(2) by blast
    then have "roleHeading ((c # cs) @ rest) = None"
      using roleHeading_starts [of "(c # cs) @ rest"] by blast
    then show ?thesis by simp
  next
    case False
    then show ?thesis by simp
  qed
  have "split_re roleHeading bol acc ((c # cs) @ rest) =
          split_re roleHeading (is_line_terminator c) (acc @ [c]) (cs @ rest)"
    using no by simp
  also have "\<dots> = split_re roleHeading (if cs = [] then is_line_terminator c else is_line_terminator (last cs))
                       ((acc @ [c]) @ cs) rest"
    using Cons.prems by (intro Cons.IH) (auto split: if_splits)
  finally show ?case by simp
qed

lemma roleHeading_line:
  assumes "role_heading_line h" and "rest = [] \<or> hd rest = CHR 0x0A"
  shows "roleHeading (h @ rest) = Some (length h)"
proof -
  from assms(1) have s: "starts_role_heading h" and nl: "CHR 0x0A \<notin> set h"
    by (simp_all add: role_heading_line_def)
  then have len: "9 < length h" by (simp add: starts_role_heading_def)
  have s': "starts_role_heading (h @ rest)"
    using s len by (simp add: starts_role_heading_def nth_append)
  have "takeWhile (\<lambda>c. c \<noteq> CHR 0x0A) (drop 9 (h @ rest)) = drop 9 h"
  proof -
    have "drop 9 (h @ rest) = drop 9 h @ rest" using len by simp
    moreover have "\<forall>c \<in> set (drop 9 h). c \<noteq> CHR 0x0A"
      using nl by (metis in_set_dropD)
    moreover have "takeWhile (\<lambda>c. c \<noteq> CHR 0x0A) rest = []"
      using assms(2) by (cases rest) auto
    ultimately show ?thesis by (simp add: takeWhile_append2)
  qed
  with roleHeading_length [OF s'] show ?thesis using len by simp
qed

lemma split_re_heading:
  assumes "roleHeading (h @ rest) = Some (length h)" and "h \<noteq> []"
  shows "split_re roleHeading True acc (h @ rest) =
           acc # split_re roleHeading (is_line_terminator (last h)) [] rest"
proof -
  from assms(2) obtain c cs where h: "h = c # cs" by (cases h) auto
  have "take (Suc (length cs)) (c # cs @ rest) = c # cs" by simp
  then show ?thesis using assms(1) unfolding h by simp
qed

lemma heading_free_after_heading:
  "b = [] \<or> hd b = CHR 0x0A \<Longrightarrow> heading_free False b \<Longrightarrow> heading_free bol b"
  by (cases b) (auto simp: starts_role_heading_def)

lemma split_re_blocks:
  assumes "\<forall>(h, b) \<in> set blocks. role_heading_line h \<and> (b = [] \<or> hd b = CHR 0x0A) \<and> heading_free False b"
      and "\<forall>(h, b) \<in> set (butlast blocks). b \<noteq> [] \<and> is_line_terminator (last b)"
      and "blocks \<noteq> []"
  shows "split_re roleHeading True acc (concat (map (\<lambda>(h, b). h @ b) blocks)) = acc # map snd blocks"
  using assms
proof (induction blocks arbitrary: acc)
  case Nil
  then show ?case by simp
next
  case (Cons x blocks)
  obtain h b where x: "x = (h, b)" by (cases x)
  let ?rest = "concat (map (\<lambda>(h, b). h @ b) blocks)"
  from Cons.prems(1) x have h: "role_heading_line h" and b0: "b = [] \<or> hd b = CHR 0x0A"
    and bf: "heading_free False b" by auto
  have hne: "h \<noteq> []" using h by (auto simp: role_heading_line_def starts_role_heading_def)
  have last_b: "blocks \<noteq> [] \<Longrightarrow> b \<noteq> [] \<and> is_line_terminator (last b)"
    using Cons.prems(2) x by auto
  have tail0: "blocks = [] \<Longrightarrow> ?rest = []" by simp
  have nl: "b @ ?rest = [] \<or> hd (b @ ?rest) = CHR 0x0A"
    using b0 last_b tail0 by (cases "blocks = []") auto
  have m: "roleHeading (h @ b @ ?rest) = Some (length h)"
    using roleHeading_line [OF h nl] .
  let ?bol = "is_line_terminator (last h)"
  have "split_re roleHeading True acc (h @ b @ ?rest) = acc # split_re roleHeading ?bol [] (b @ ?rest)"
    using split_re_heading [OF m hne] .
  also have "split_re roleHeading ?bol [] (b @ ?rest) =
      split_re roleHeading (if b = [] then ?bol else is_line_terminator (last b)) ([] @ b) ?rest"
  proof (rule split_re_body)
    show "heading_free ?bol b" using heading_free_after_heading [OF b0 bf] .
    show "?rest = [] \<or> b = [] \<or> is_line_terminator (last b)"
      using last_b tail0 by blast
  qed
  also have "\<dots> = b # map snd blocks"
  proof (cases "blocks = []")
    case True
    then show ?thesis by simp
  next
    case False
    with last_b have "b \<noteq> []" "is_line_terminator (last b)" by auto
    moreover have "split_re roleHeading True b ?rest = b # map snd blocks"
    proof (rule Cons.IH)
      show "\<forall>(h, b) \<in> set blocks. role_heading_line h \<and> (b = [] \<or> hd b = CHR 0x0A) \<and> heading_free False b"
        using Cons.prems(1) by auto
      show "\<forall>(h, b) \<in> set (butlast blocks). b \<noteq> [] \<and> is_line_terminator (last b)"
        using Cons.prems(2) False by auto
      show "blocks \<noteq> []" by fact
    qed
    ultimately show ?thesis by simp
  qed
  finally show ?case by (simp add: x)
qed

lemma roleLoop_map:
  "roleLoop blocks roles = roles @ map role_of_block (filter block_kept blocks)"
proof (induction blocks arbitrary: roles)
  case Nil
  then show ?case by simp
next
  case (Cons b blocks)
  then show ?case
    by (simp add: Let_def role_of_block_def block_kept_def extractBulletList_nonempty)
qed


text \<open>
  C5. Let the section be a text without role headings followed by blocks, each a heading
  line \<^verbatim>\<open>### Role N\<close> with any text behind the number up to the end of the line, and a body
  without role headings. Then \<^const>\<open>extractRoles\<close> gives one role record for every body that
  has a title or a company, in the order of the blocks, and the record is computed from the
  body alone: nothing of the heading line reaches a field. Two blocks headed
  \<^verbatim>\<open>### Role 1 (Most Recent)\<close> and \<^verbatim>\<open>### Role 2\<close> give two records in that order.
\<close>

theorem extractRoles_blocks:
  assumes "heading_free True pre" and "pre = [] \<or> is_line_terminator (last pre)"
      and "\<forall>(h, b) \<in> set blocks.
             role_heading_line h \<and> (b = [] \<or> hd b = CHR 0x0A) \<and> heading_free False b"
      and "\<forall>(h, b) \<in> set (butlast blocks). b \<noteq> [] \<and> is_line_terminator (last b)"
  shows "extractRoles (pre @ concat (map (\<lambda>(h, b). h @ b) blocks))
           = map role_of_block (filter block_kept (map snd blocks))
       \<and> extractRoles
           ''### Role 1 (Most Recent)\<newline>\<newline>**Title:** VP of Operations\<newline>**Company:** Acme\<newline>\<newline>### Role 2\<newline>\<newline>**Title:** Director\<newline>**Company:** Beta''
         = [\<lparr>role_title = ''VP of Operations'', role_company = ''Acme'', role_dates = '''',
             role_location = '''', role_description = '''', role_contributions = []\<rparr>,
            \<lparr>role_title = ''Director'', role_company = ''Beta'', role_dates = '''',
             role_location = '''', role_description = '''', role_contributions = []\<rparr>]"
proof
  show "extractRoles
           ''### Role 1 (Most Recent)\<newline>\<newline>**Title:** VP of Operations\<newline>**Company:** Acme\<newline>\<newline>### Role 2\<newline>\<newline>**Title:** Director\<newline>**Company:** Beta''
         = [\<lparr>role_title = ''VP of Operations'', role_company = ''Acme'', role_dates = '''',
             role_location = '''', role_description = '''', role_contributions = []\<rparr>,
            \<lparr>role_title = ''Director'', role_company = ''Beta'', role_dates = '''',
             role_location = '''', role_description = '''', role_contributions = []\<rparr>]"
    by code_simp
next
  let ?rest = "concat (map (\<lambda>(h, b). h @ b) blocks)"
  have "split_re roleHeading True [] (pre @ ?rest) =
          split_re roleHeading (if pre = [] then True else is_line_terminator (last pre)) ([] @ pre) ?rest"
    using assms(1,2) by (intro split_re_body) auto
  also have "\<dots> = split_re roleHeading True pre ?rest"
    using assms(2) by auto
  finally have s: "split_re roleHeading True [] (pre @ ?rest) = split_re roleHeading True pre ?rest" .
  have "tl (split_re roleHeading True pre ?rest) = map snd blocks"
  proof (cases "blocks = []")
    case True
    then show ?thesis by simp
  next
    case False
    then show ?thesis using split_re_blocks [OF assms(3,4)] by simp
  qed
  then show "extractRoles (pre @ ?rest) = map role_of_block (filter block_kept (map snd blocks))"
    by (simp add: extractRoles_def s roleLoop_map)
qed

theorem extractRoles_blocks_witness:
  "extractRoles
     (''Intro\<newline>'' @ concat (map (\<lambda>(h, b). h @ b)
        [(''### Role 1 (Most Recent)'', ''\<newline>\<newline>**Title:** VP\<newline>**Company:** Acme\<newline>\<newline>''),
         (''### Role 2'', ''\<newline>\<newline>**Dates:** 2020\<newline>\<newline>''),
         (''### Role 10 - first job'', ''\<newline>**Company:** Beta\<newline>- **Title:** Clerk'')]))
   = [\<lparr>role_title = ''VP'', role_company = ''Acme'', role_dates = '''',
       role_location = '''', role_description = '''', role_contributions = []\<rparr>,
      \<lparr>role_title = ''Clerk'', role_company = ''Beta'', role_dates = '''',
       role_location = '''', role_description = '''', role_contributions = []\<rparr>]"
proof -
  let ?blocks = "[(''### Role 1 (Most Recent)'', ''\<newline>\<newline>**Title:** VP\<newline>**Company:** Acme\<newline>\<newline>''),
         (''### Role 2'', ''\<newline>\<newline>**Dates:** 2020\<newline>\<newline>''),
         (''### Role 10 - first job'', ''\<newline>**Company:** Beta\<newline>- **Title:** Clerk'')]"
  have 1: "heading_free True ''Intro\<newline>''" by code_simp
  have 2: "''Intro\<newline>'' = [] \<or> is_line_terminator (last ''Intro\<newline>'')" by code_simp
  have 3: "\<forall>(h, b) \<in> set ?blocks.
             role_heading_line h \<and> (b = [] \<or> hd b = CHR 0x0A) \<and> heading_free False b"
    by code_simp
  have 4: "\<forall>(h, b) \<in> set (butlast ?blocks). b \<noteq> [] \<and> is_line_terminator (last b)"
    by code_simp
  have 5: "map role_of_block (filter block_kept (map snd ?blocks))
    = [\<lparr>role_title = ''VP'', role_company = ''Acme'', role_dates = '''',
       role_location = '''', role_description = '''', role_contributions = []\<rparr>,
      \<lparr>role_title = ''Clerk'', role_company = ''Beta'', role_dates = '''',
       role_location = '''', role_description = '''', role_contributions = []\<rparr>]"
    by code_simp
  show ?thesis
    using extractRoles_blocks [OF 1 2 3 4] 5 by simp
qed

subsection \<open>The section locator on lines\<close>

lemma join_lines_Cons: "ls \<noteq> [] \<Longrightarrow> join_lines (l # ls) = l @ CHR 0x0A # join_lines ls"
  by (cases ls) simp_all

lemma split_from_nonempty: "split_from d acc s \<noteq> []"
  by (induction d acc s rule: split_from.induct) simp_all

lemma join_split_from: "join_lines (split_from (CHR 0x0A) acc s) = acc @ s"
  by (induction "CHR 0x0A" acc s rule: split_from.induct)
     (simp_all add: join_lines_Cons split_from_nonempty)

lemma join_split: "join_lines (split (CHR 0x0A) s) = s"
  by (simp add: split_def join_split_from)

lemma split_from_free: "d \<notin> set acc \<Longrightarrow> \<forall>l \<in> set (split_from d acc s). d \<notin> set l"
  by (induction d acc s rule: split_from.induct) simp_all

lemma split_free: "\<forall>l \<in> set (split d s). d \<notin> set l"
  using split_from_free [of d "[]" s] by (simp add: split_def)

lemma split_nonempty: "split d s \<noteq> []"
  by (simp add: split_def split_from_nonempty)

text \<open>Searching a pattern that begins with a line feed.\<close>

lemma indexOf_no_char: "c \<notin> set s \<Longrightarrow> indexOf s (c # p) = None"
  by (induction s) (auto simp: indexOf_def)

lemma indexOf_line:
  assumes "CHR 0x0A \<notin> set l"
  shows "indexOf (l @ CHR 0x0A # rest) (CHR 0x0A # p) =
           (if startsWith rest p then Some (length l)
            else map_option (\<lambda>i. length l + 1 + i) (indexOf rest (CHR 0x0A # p)))"
  using assms
proof (induction l)
  case Nil
  show ?case by (simp add: indexOf_def option.map_comp comp_def)
next
  case (Cons c l)
  then have "indexOf ((c # l) @ CHR 0x0A # rest) (CHR 0x0A # p)
               = map_option Suc (indexOf (l @ CHR 0x0A # rest) (CHR 0x0A # p))"
    by (auto simp: indexOf_def)
  with Cons show ?case by (simp add: option.map_comp comp_def)
qed

lemma startsWith_append_free:
  assumes "c \<notin> set p"
  shows "startsWith (l @ c # rest) p \<longleftrightarrow> startsWith l p"
  using assms
  by (induction l p rule: startsWith.induct) auto

lemma startsWith_join:
  assumes "CHR 0x0A \<notin> set p"
  shows "startsWith (join_lines (l # ls)) p \<longleftrightarrow> startsWith l p"
  by (cases ls) (simp_all add: startsWith_append_free [OF assms])

lemma startsWith_length: "startsWith s p \<Longrightarrow> length p \<le> length s"
  by (induction s p rule: startsWith.induct) auto

lemma join_lines_tail: "join_lines (l # ls) = l @ tail_text ls"
  by (cases ls) (simp_all add: tail_text_def)

lemma after_heading_lines:
  assumes "\<forall>l \<in> set (l0 # ls). CHR 0x0A \<notin> set l" and "CHR 0x0A \<notin> set m"
  shows "map_option (\<lambda>i. drop (i + 1 + length m) (join_lines (l0 # ls)))
           (indexOf (join_lines (l0 # ls)) (CHR 0x0A # m))
         = (case dropWhile (\<lambda>l. \<not> startsWith l m) ls of
              [] \<Rightarrow> None
            | l # rest \<Rightarrow> Some (drop (length m) l @ tail_text rest))"
  using assms(1)
proof (induction ls arbitrary: l0)
  case Nil
  then show ?case by (simp add: indexOf_no_char)
next
  case (Cons l1 ls)
  have l0: "CHR 0x0A \<notin> set l0" using Cons.prems by simp
  have j: "join_lines (l0 # l1 # ls) = l0 @ CHR 0x0A # join_lines (l1 # ls)" by simp
  show ?case
  proof (cases "startsWith l1 m")
    case True
    then have len: "length m \<le> length l1" by (rule startsWith_length)
    have "indexOf (join_lines (l0 # l1 # ls)) (CHR 0x0A # m) = Some (length l0)"
      unfolding j indexOf_line [OF l0] using True by (simp add: startsWith_join [OF assms(2)])
    moreover have "drop (length l0 + 1 + length m) (join_lines (l0 # l1 # ls))
                     = drop (length m) l1 @ tail_text ls"
      unfolding j using len by (simp add: join_lines_tail)
    ultimately show ?thesis using True by simp
  next
    case False
    have "indexOf (join_lines (l0 # l1 # ls)) (CHR 0x0A # m)
            = map_option (\<lambda>i. length l0 + 1 + i) (indexOf (join_lines (l1 # ls)) (CHR 0x0A # m))"
      unfolding j indexOf_line [OF l0] using False
      by (cases "indexOf (join_lines (l1 # ls)) (CHR 0x0A # m)")
         (simp_all add: startsWith_join [OF assms(2)])
    moreover have "\<And>i. drop (length l0 + 1 + i + 1 + length m) (join_lines (l0 # l1 # ls))
                     = drop (i + 1 + length m) (join_lines (l1 # ls))"
      unfolding j by simp
    ultimately have "map_option (\<lambda>i. drop (i + 1 + length m) (join_lines (l0 # l1 # ls)))
           (indexOf (join_lines (l0 # l1 # ls)) (CHR 0x0A # m))
        = map_option (\<lambda>i. drop (i + 1 + length m) (join_lines (l1 # ls)))
           (indexOf (join_lines (l1 # ls)) (CHR 0x0A # m))"
      by (simp add: option.map_comp comp_def)
    also have "\<dots> = (case dropWhile (\<lambda>l. \<not> startsWith l m) ls of
              [] \<Rightarrow> None
            | l # rest \<Rightarrow> Some (drop (length m) l @ tail_text rest))"
      using Cons.prems by (intro Cons.IH) simp
    finally show ?thesis using False by simp
  qed
qed

lemma upto_heading_lines:
  assumes "\<forall>l \<in> set (f # fs). CHR 0x0A \<notin> set l" and "CHR 0x0A \<notin> set m"
  shows "(case indexOf (join_lines (f # fs)) (CHR 0x0A # m) of
            None \<Rightarrow> join_lines (f # fs)
          | Some k \<Rightarrow> take k (join_lines (f # fs)))
         = join_lines (f # takeWhile (\<lambda>l. \<not> startsWith l m) fs)"
  using assms(1)
proof (induction fs arbitrary: f)
  case Nil
  then show ?case by (simp add: indexOf_no_char)
next
  case (Cons g gs)
  have f: "CHR 0x0A \<notin> set f" using Cons.prems by simp
  have j: "join_lines (f # g # gs) = f @ CHR 0x0A # join_lines (g # gs)" by simp
  show ?case
  proof (cases "startsWith g m")
    case True
    have "indexOf (join_lines (f # g # gs)) (CHR 0x0A # m) = Some (length f)"
      unfolding j indexOf_line [OF f] using True by (simp add: startsWith_join [OF assms(2)])
    then show ?thesis using True by simp
  next
    case False
    have i: "indexOf (join_lines (f # g # gs)) (CHR 0x0A # m)
            = map_option (\<lambda>i. length f + 1 + i) (indexOf (join_lines (g # gs)) (CHR 0x0A # m))"
      unfolding j indexOf_line [OF f] using False
      by (cases "indexOf (join_lines (g # gs)) (CHR 0x0A # m)")
         (simp_all add: startsWith_join [OF assms(2)])
    have IH: "(case indexOf (join_lines (g # gs)) (CHR 0x0A # m) of
            None \<Rightarrow> join_lines (g # gs)
          | Some k \<Rightarrow> take k (join_lines (g # gs)))
         = join_lines (g # takeWhile (\<lambda>l. \<not> startsWith l m) gs)"
      using Cons.prems by (intro Cons.IH) simp
    show ?thesis
    proof (cases "indexOf (join_lines (g # gs)) (CHR 0x0A # m)")
      case None
      with i IH False show ?thesis by (simp add: join_lines_Cons)
    next
      case (Some k)
      with i IH False show ?thesis by (simp add: join_lines_Cons)
    qed
  qed
qed

lemma section_content:
  assumes "CHR 0x0A \<notin> set t" and "\<forall>l \<in> set R. CHR 0x0A \<notin> set l"
  shows "(case indexOf (t @ tail_text R) ''\<newline>'' of
            None \<Rightarrow> ''''
          | Some newlinePos \<Rightarrow>
              (let sectionContent = drop (newlinePos + 1) (t @ tail_text R)
               in (case indexOf sectionContent ''\<newline>## '' of
                     None \<Rightarrow> trim sectionContent
                   | Some nextSection \<Rightarrow> trim (take nextSection sectionContent))))
         = (case R of
              [] \<Rightarrow> ''''
            | f # fs \<Rightarrow> trim (join_lines (f # takeWhile (\<lambda>l. \<not> startsWith l ''## '') fs)))"
proof (cases R)
  case Nil
  then show ?thesis using assms(1) by (simp add: tail_text_def indexOf_no_char)
next
  case (Cons f fs)
  define sc where "sc = join_lines (f # fs)"
  have tt: "tail_text R = CHR 0x0A # sc"
    by (simp add: Cons tail_text_def sc_def)
  have nl: "indexOf (t @ CHR 0x0A # sc) ''\<newline>'' = Some (length t)"
    using indexOf_line [OF assms(1), of sc "[]"] by simp
  have m: "CHR 0x0A \<notin> set ''## ''" by simp
  have "(case indexOf sc ''\<newline>## '' of None \<Rightarrow> trim sc | Some k \<Rightarrow> trim (take k sc))
        = trim (case indexOf sc ''\<newline>## '' of None \<Rightarrow> sc | Some k \<Rightarrow> take k sc)"
    by (simp split: option.splits)
  also have "\<dots> = trim (join_lines (f # takeWhile (\<lambda>l. \<not> startsWith l ''## '') fs))"
    unfolding sc_def using upto_heading_lines [OF _ m, of f fs] assms(2) Cons by simp
  finally have "(case indexOf sc ''\<newline>## '' of None \<Rightarrow> trim sc | Some k \<Rightarrow> trim (take k sc))
        = trim (join_lines (f # takeWhile (\<lambda>l. \<not> startsWith l ''## '') fs))" .
  then show ?thesis
    unfolding tt nl by (simp add: Cons Let_def)
qed

lemma extractSection_lines:
  assumes "ls \<noteq> []" and "\<forall>l \<in> set ls. CHR 0x0A \<notin> set l" and "CHR 0x0A \<notin> set name"
  shows "extractSection (join_lines ls) name = section_lines name ls"
proof -
  from assms(1) obtain l0 ls' where ls: "ls = l0 # ls'" by (cases ls) auto
  define m where "m = ''## '' @ name"
  define doc where "doc = join_lines (l0 # ls')"
  have m: "CHR 0x0A \<notin> set m" using assms(3) by (simp add: m_def)
  have free: "\<forall>l \<in> set (l0 # ls'). CHR 0x0A \<notin> set l" using assms(2) ls by simp
  note ah = after_heading_lines [OF free m, folded doc_def]
  have sw_doc: "startsWith doc m \<longleftrightarrow> startsWith l0 m"
    unfolding doc_def by (rule startsWith_join [OF m])
  have unfold: "extractSection doc name =
     (case (case indexOf doc (CHR 0x0A # m) of
              Some i \<Rightarrow> Some (i + 1)
            | None \<Rightarrow> if startsWith doc m then Some 0 else None) of
        None \<Rightarrow> ''''
      | Some st \<Rightarrow>
          (case indexOf (drop (st + length m) doc) ''\<newline>'' of
             None \<Rightarrow> ''''
           | Some newlinePos \<Rightarrow>
               (let sectionContent = drop (newlinePos + 1) (drop (st + length m) doc)
                in (case indexOf sectionContent ''\<newline>## '' of
                      None \<Rightarrow> trim sectionContent
                    | Some nextSection \<Rightarrow> trim (take nextSection sectionContent)))))"
    unfolding extractSection_def m_def Let_def ..
  have "extractSection doc name = section_lines name (l0 # ls')"
  proof (cases "dropWhile (\<lambda>l. \<not> startsWith l m) ls'")
    case Nil
    have none: "indexOf doc (CHR 0x0A # m) = None"
      using ah unfolding Nil by (simp only: list.case map_option_is_None)
    have hr: "heading_rest name (l0 # ls') = (if startsWith l0 m then Some ls' else None)"
      unfolding heading_rest_def is_heading_def m_def [symmetric] by (simp add: Nil)
    show ?thesis
    proof (cases "startsWith l0 m")
      case True
      then have "length m \<le> length l0" by (rule startsWith_length)
      then have d: "drop (0 + length m) doc = drop (length m) l0 @ tail_text ls'"
        unfolding doc_def by (simp add: join_lines_tail del: join_lines.simps)
      have t: "CHR 0x0A \<notin> set (drop (length m) l0)"
        using free by (auto dest: in_set_dropD)
      have "extractSection doc name =
          (case ls' of
              [] \<Rightarrow> ''''
            | f # fs \<Rightarrow> trim (join_lines (f # takeWhile (\<lambda>l. \<not> startsWith l ''## '') fs)))"
        unfolding unfold none using True sw_doc section_content [OF t, of ls'] free
        by (simp only: option.case if_True d) simp
      then show ?thesis
        unfolding section_lines_def hr is_top_heading_def using True by simp
    next
      case False
      then have "extractSection doc name = ''''"
        unfolding unfold none using sw_doc by (simp only: option.case if_False)
      then show ?thesis
        unfolding section_lines_def hr is_top_heading_def using False by simp
    qed
  next
    case (Cons l rest)
    from ah obtain i where i: "indexOf doc (CHR 0x0A # m) = Some i"
      and d: "drop (i + 1 + length m) doc = drop (length m) l @ tail_text rest"
      unfolding Cons by (cases "indexOf doc (CHR 0x0A # m)") auto
    have hr: "heading_rest name (l0 # ls') = Some rest"
      unfolding heading_rest_def is_heading_def m_def [symmetric] by (simp add: Cons)
    have "set (l # rest) \<subseteq> set ls'"
      using set_dropWhileD [of _ "\<lambda>l. \<not> startsWith l m" ls'] Cons by (metis subsetI)
    with free have lfree: "CHR 0x0A \<notin> set l" and rfree: "\<forall>x \<in> set rest. CHR 0x0A \<notin> set x"
      by auto
    have t: "CHR 0x0A \<notin> set (drop (length m) l)"
      using lfree by (auto dest: in_set_dropD)
    have "extractSection doc name =
          (case rest of
              [] \<Rightarrow> ''''
            | f # fs \<Rightarrow> trim (join_lines (f # takeWhile (\<lambda>l. \<not> startsWith l ''## '') fs)))"
      unfolding unfold i using section_content [OF t rfree]
      by (simp only: option.case d)
    then show ?thesis
      unfolding section_lines_def hr is_top_heading_def by simp
  qed
  then show ?thesis by (simp add: ls doc_def)
qed

text \<open>The section locator computes \<^const>\<open>section_lines\<close> on the lines of the document.\<close>

theorem extractSection_by_lines:
  assumes "CHR 0x0A \<notin> set name"
  shows "extractSection doc name = section_lines name (split (CHR 0x0A) doc)"
  using extractSection_lines [OF split_nonempty split_free assms, of doc]
  by (simp add: join_split)

lemma heading_rest_first:
  assumes "P l0 \<longrightarrow> (\<forall>l \<in> set ls. \<not> P l)"
  shows "(case dropWhile (\<lambda>l. \<not> P l) ls of
            l # rest \<Rightarrow> Some rest
          | [] \<Rightarrow> if P l0 then Some ls else None)
         = (case dropWhile (\<lambda>l. \<not> P l) (l0 # ls) of [] \<Rightarrow> None | h # rest \<Rightarrow> Some rest)"
proof (cases "P l0")
  case True
  with assms have e: "dropWhile (\<lambda>l. \<not> P l) ls = []" by simp
  show ?thesis unfolding e using True by simp
next
  case False
  then show ?thesis by (simp split: list.splits)
qed

lemma section_lines_spec:
  assumes "is_heading name l0 \<longrightarrow> (\<forall>l \<in> set ls. \<not> is_heading name l)"
      and "case dropWhile (\<lambda>l. \<not> is_heading name l) (l0 # ls) of
             heading # next # rest \<Rightarrow> \<not> is_top_heading next
           | _ \<Rightarrow> True"
  shows "section_lines name (l0 # ls) =
           trim (case dropWhile (\<lambda>l. \<not> is_heading name l) (l0 # ls) of
                   [] \<Rightarrow> ''''
                 | heading # rest \<Rightarrow> join_lines (takeWhile (\<lambda>l. \<not> is_top_heading l) rest))"
proof -
  have hr: "heading_rest name (l0 # ls) =
      (case dropWhile (\<lambda>l. \<not> is_heading name l) (l0 # ls) of [] \<Rightarrow> None | h # rest \<Rightarrow> Some rest)"
    unfolding heading_rest_def list.sel using assms(1) by (rule heading_rest_first)
  show ?thesis
  proof (cases "dropWhile (\<lambda>l. \<not> is_heading name l) (l0 # ls)")
    case Nil
    show ?thesis unfolding section_lines_def hr Nil by simp
  next
    case outer: (Cons heading rest)
    show ?thesis
    proof (cases rest)
      case Nil
      show ?thesis unfolding section_lines_def hr outer Nil by simp
    next
      case (Cons f fs)
      from assms(2) have "\<not> is_top_heading f" unfolding outer Cons by simp
      then show ?thesis unfolding section_lines_def hr outer Cons by simp
    qed
  qed
qed

lemma extractSection_trim_spec:
  assumes "CHR 0x0A \<notin> set name"
      and "\<not> heading_repeated doc name"
      and "\<not> heading_adjacent doc name"
  shows "extractSection doc name = trim (spec_extractSection doc name)"
proof -
  obtain l0 ls where ls: "split (CHR 0x0A) doc = l0 # ls"
    using split_nonempty [of "CHR 0x0A" doc] by (cases "split (CHR 0x0A) doc") auto
  have rep: "is_heading name l0 \<longrightarrow> (\<forall>l \<in> set ls. \<not> is_heading name l)"
    using assms(2) unfolding heading_repeated_def ls by (simp add: list_ex_iff)
  have adj: "case dropWhile (\<lambda>l. \<not> is_heading name l) (l0 # ls) of
             heading # next # rest \<Rightarrow> \<not> is_top_heading next
           | _ \<Rightarrow> True"
    using assms(3) unfolding heading_adjacent_def ls
    by (cases "dropWhile (\<lambda>l. \<not> is_heading name l) (l0 # ls)" rule: remdups_adj.cases) simp_all
  show ?thesis
    unfolding extractSection_by_lines [OF assms(1)] spec_extractSection_def ls
    using rep adj by (rule section_lines_spec)
qed

text \<open>
  C2, as amended. For every document and every section name (without a line feed),
  \<^const>\<open>extractSection\<close> returns the text between the heading line of the section and the next
  top-level heading line with the whitespace at both ends removed, wherever the heading
  line is (first line or later), provided that the heading line is not directly followed
  by a top-level heading line and that a heading on the first line is not repeated on a
  later line. It returns the empty string when no line is a heading of the section.
\<close>

theorem extractSection_trimmed_section:
  assumes "CHR 0x0A \<notin> set name"
  shows "(\<not> heading_repeated doc name \<and> \<not> heading_adjacent doc name \<longrightarrow>
            extractSection doc name = trim (spec_extractSection doc name))
       \<and> (\<not> list_ex (is_heading name) (split (CHR 0x0A) doc) \<longrightarrow> extractSection doc name = '''')"
proof (intro conjI impI)
  assume "\<not> heading_repeated doc name \<and> \<not> heading_adjacent doc name"
  then show "extractSection doc name = trim (spec_extractSection doc name)"
    using extractSection_trim_spec [OF assms] by blast
next
  assume "\<not> list_ex (is_heading name) (split (CHR 0x0A) doc)"
  then have absent: "\<forall>l \<in> set (split (CHR 0x0A) doc). \<not> is_heading name l"
    by (simp add: list_ex_iff)
  then have e: "dropWhile (\<lambda>l. \<not> is_heading name l) (split (CHR 0x0A) doc) = []"
    by (simp add: dropWhile_eq_Nil_conv)
  have "\<not> heading_repeated doc name"
    using absent unfolding heading_repeated_def by (auto split: list.splits)
  moreover have "\<not> heading_adjacent doc name"
    unfolding heading_adjacent_def e by simp
  moreover have "spec_extractSection doc name = ''''"
    unfolding spec_extractSection_def e by simp
  ultimately show "extractSection doc name = ''''"
    using extractSection_trim_spec [OF assms, of doc] by simp
qed

theorem extractSection_trimmed_section_witness:
  "extractSection ''## About\<newline>\<newline>  Hello \<newline>\<newline>## Narrative\<newline>x'' ''About'' = ''Hello''
   \<and> extractSection ''# Profile\<newline>\<newline>## About\<newline>**Name:** Ada\<newline>## Narrative'' ''About'' = ''**Name:** Ada''"
proof -
  let ?d1 = "''## About\<newline>\<newline>  Hello \<newline>\<newline>## Narrative\<newline>x''"
  let ?d2 = "''# Profile\<newline>\<newline>## About\<newline>**Name:** Ada\<newline>## Narrative''"
  have 1: "CHR 0x0A \<notin> set ''About''" by simp
  have 2: "\<not> heading_repeated ?d1 ''About''" by code_simp
  have 3: "\<not> heading_adjacent ?d1 ''About''" by code_simp
  have 4: "\<not> heading_repeated ?d2 ''About''" by code_simp
  have 5: "\<not> heading_adjacent ?d2 ''About''" by code_simp
  have 6: "trim (spec_extractSection ?d1 ''About'') = ''Hello''" by code_simp
  have 7: "trim (spec_extractSection ?d2 ''About'') = ''**Name:** Ada''" by code_simp
  show ?thesis
    using extractSection_trimmed_section [OF 1, of ?d1] extractSection_trimmed_section [OF 1, of ?d2]
      2 3 4 5 6 7
    by simp
qed

text \<open>
  The claim as stated fails: the text between the heading line and the next heading is
  returned without the whitespace at its ends.
\<close>

theorem section_locator_counterexample:
  "extractSection ''## About\<newline>\<newline>  Hello \<newline>\<newline>## Narrative\<newline>x'' ''About'' = ''Hello''
   \<and> spec_extractSection ''## About\<newline>\<newline>  Hello \<newline>\<newline>## Narrative\<newline>x'' ''About''
       = ''\<newline>  Hello \<newline>''"
  by code_simp

text \<open>
  A heading line that is directly followed by a top-level heading line: the search for the
  next heading begins behind the first character of the section content, so that the
  following section is returned, heading included.
\<close>

lemma extractSection_adjacent_heading:
  "extractSection ''## About\<newline>## Narrative\<newline>**Philosophy:** Care'' ''About''
     = ''## Narrative\<newline>**Philosophy:** Care''
   \<and> spec_extractSection ''## About\<newline>## Narrative\<newline>**Philosophy:** Care'' ''About'' = ''''"
  by code_simp

lemma startsWith_append: "startsWith s (p @ q) \<Longrightarrow> startsWith s p"
  by (induction s p rule: startsWith.induct) auto

lemma is_heading_top: "is_heading name l \<Longrightarrow> is_top_heading l"
  unfolding is_heading_def is_top_heading_def by (rule startsWith_append)

lemma takeWhile_stop: "\<not> Q y \<Longrightarrow> takeWhile Q (xs @ y # ys) = takeWhile Q xs"
  by (induction xs) auto

lemma dropWhile_all: "\<forall>x \<in> set xs. Q x \<Longrightarrow> dropWhile Q (xs @ ys) = dropWhile Q ys"
  by (induction xs) auto

lemma section_text_independent:
  assumes "r \<noteq> []" and "is_top_heading hS"
  shows "section_text (r @ hS # Z) = section_text r"
proof -
  from assms(1) obtain f fs where r: "r = f # fs" by (cases r) auto
  have "takeWhile (\<lambda>l. \<not> is_top_heading l) (fs @ hS # Z) = takeWhile (\<lambda>l. \<not> is_top_heading l) fs"
    using assms(2) by (intro takeWhile_stop) simp
  then show ?thesis unfolding r section_text_def by simp
qed

lemma section_lines_Cons:
  "section_lines T (l0 # ls) =
     (case dropWhile (\<lambda>l. \<not> is_heading T l) ls of
        l # rest \<Rightarrow> section_text rest
      | [] \<Rightarrow> if is_heading T l0 then section_text ls else '''')"
proof (cases "dropWhile (\<lambda>l. \<not> is_heading T l) ls")
  case Nil
  show ?thesis
    unfolding section_lines_def heading_rest_def section_text_def list.sel Nil by simp
next
  case (Cons l rest)
  show ?thesis
    unfolding section_lines_def heading_rest_def section_text_def list.sel Cons by simp
qed

lemma section_lines_body:
  assumes "\<not> is_heading T hS" and "is_top_heading hS"
      and "pre = [] \<or> \<not> is_heading T (last pre)"
      and "\<forall>l \<in> set b. \<not> is_top_heading l"
  shows "section_lines T (pre @ hS # b @ post) = section_lines T (pre @ hS # post)"
proof -
  define Q where "Q = (\<lambda>l. \<not> is_heading T l)"
  have b: "\<forall>l \<in> set b. Q l"
    using assms(4) is_heading_top unfolding Q_def by blast
  have hS: "Q hS" using assms(1) by (simp add: Q_def)
  note sl = section_lines_Cons [of T, folded Q_def]
  have skip: "\<And>Z. dropWhile Q (hS # b @ Z) = dropWhile Q Z"
    using hS b dropWhile_all [of b Q] by simp
  have skip0: "dropWhile Q (hS # post) = dropWhile Q post"
    using hS by simp
  show ?thesis
  proof (cases pre)
    case Nil
    have d1: "dropWhile Q (b @ post) = dropWhile Q post"
      using b by (rule dropWhile_all)
    show ?thesis
      unfolding Nil append_Nil sl d1 using assms(1) by (simp only: if_False)
  next
    case (Cons p0 pre')
    have e1: "section_lines T (pre @ hS # b @ post) =
        (case dropWhile Q (pre' @ hS # b @ post) of
           l # rest \<Rightarrow> section_text rest
         | [] \<Rightarrow> if is_heading T p0 then section_text (pre' @ hS # b @ post) else '''')"
      unfolding Cons by (simp only: append_Cons sl)
    have e0: "section_lines T (pre @ hS # post) =
        (case dropWhile Q (pre' @ hS # post) of
           l # rest \<Rightarrow> section_text rest
         | [] \<Rightarrow> if is_heading T p0 then section_text (pre' @ hS # post) else '''')"
      unfolding Cons by (simp only: append_Cons sl)
    show ?thesis
    proof (cases "\<forall>x \<in> set pre'. Q x")
      case True
      have d1: "dropWhile Q (pre' @ hS # b @ post) = dropWhile Q post"
        using dropWhile_all [OF True, of "hS # b @ post"] skip [of post] by simp
      have d0: "dropWhile Q (pre' @ hS # post) = dropWhile Q post"
        using dropWhile_all [OF True, of "hS # post"] skip0 by simp
      show ?thesis
      proof (cases "is_heading T p0")
        case p: True
        have "pre' \<noteq> []"
        proof
          assume "pre' = []"
          with Cons assms(3) p show False by simp
        qed
        then have "section_text (pre' @ hS # b @ post) = section_text (pre' @ hS # post)"
          using assms(2) by (simp add: section_text_independent)
        then show ?thesis
          unfolding e1 e0 d1 d0 by (simp only:)
      next
        case np: False
        show ?thesis
          unfolding e1 e0 d1 d0 using np by (simp only: if_False)
      qed
    next
      case False
      then have ex: "\<exists>x \<in> set pre'. \<not> Q x" by simp
      then obtain x where x: "x \<in> set pre'" "\<not> Q x" by blast
      have dw: "\<And>Z. dropWhile Q (pre' @ Z) = dropWhile Q pre' @ Z"
        using x by (rule dropWhile_append1)
      from ex have ne: "dropWhile Q pre' \<noteq> []" by (simp add: dropWhile_eq_Nil_conv)
      then obtain l r where lr: "dropWhile Q pre' = l # r"
        by (cases "dropWhile Q pre'") auto
      have nQ: "\<not> Q l" using hd_dropWhile [OF ne] unfolding lr by simp
      have "r \<noteq> []"
      proof
        assume "r = []"
        have "pre' = takeWhile Q pre' @ dropWhile Q pre'" by simp
        then have "pre' = takeWhile Q pre' @ [l]" unfolding lr \<open>r = []\<close> .
        then have "last pre' = l" by (metis last_snoc)
        moreover have "pre' \<noteq> []" using ex by auto
        ultimately have "last pre = l" using Cons by simp
        with assms(3) Cons nQ show False
          by (simp add: Q_def)
      qed
      then have "section_text (r @ hS # b @ post) = section_text (r @ hS # post)"
        using assms(2) by (simp add: section_text_independent)
      then show ?thesis
        unfolding e1 e0 dw lr by (simp only: append_Cons list.case)
    qed
  qed
qed

lemma extractSection_independent:
  assumes "split (CHR 0x0A) doc1 = pre @ heading # body1 @ post"
      and "split (CHR 0x0A) doc2 = pre @ heading # body2 @ post"
      and "is_top_heading heading"
      and "\<forall>l \<in> set (body1 @ body2). \<not> is_top_heading l"
      and "untouched pre heading name" and "CHR 0x0A \<notin> set name"
  shows "extractSection doc1 name = extractSection doc2 name"
proof -
  from assms(5) have h: "\<not> is_heading name heading"
    and p: "pre = [] \<or> \<not> is_heading name (last pre)"
    by (simp_all add: untouched_def)
  have b1: "\<forall>l \<in> set body1. \<not> is_top_heading l" and b2: "\<forall>l \<in> set body2. \<not> is_top_heading l"
    using assms(4) by simp_all
  have "extractSection doc1 name = section_lines name (pre @ heading # body1 @ post)"
    unfolding extractSection_by_lines [OF assms(6)] assms(1) ..
  also have "\<dots> = section_lines name (pre @ heading # post)"
    using h assms(3) p b1 by (rule section_lines_body)
  also have "\<dots> = section_lines name (pre @ heading # body2 @ post)"
    using h assms(3) p b2 by (rule section_lines_body [symmetric])
  also have "\<dots> = extractSection doc2 name"
    unfolding extractSection_by_lines [OF assms(6)] assms(2) ..
  finally show ?thesis .
qed

lemma records_of_sections:
  "extractSection r1 ''About'' = extractSection r2 ''About''
     \<Longrightarrow> about (parseDocument r1) = about (parseDocument r2)"
  "extractSection r1 ''Narrative'' = extractSection r2 ''Narrative''
     \<Longrightarrow> narrative (parseDocument r1) = narrative (parseDocument r2)"
  "extractSection r1 ''Thesis'' = extractSection r2 ''Thesis''
     \<Longrightarrow> thesis (parseDocument r1) = thesis (parseDocument r2)"
  "extractSection r1 ''Accomplishments'' = extractSection r2 ''Accomplishments''
     \<Longrightarrow> accomplishments (parseDocument r1) = accomplishments (parseDocument r2)"
  "extractSection r1 ''Track Record'' = extractSection r2 ''Track Record''
     \<Longrightarrow> extractSection r1 ''Accomplishments'' = extractSection r2 ''Accomplishments''
     \<Longrightarrow> track_record (parseDocument r1) = track_record (parseDocument r2)"
  "extractSection r1 ''Experience'' = extractSection r2 ''Experience''
     \<Longrightarrow> experience (parseDocument r1) = experience (parseDocument r2)"
  "extractSection r1 ''Seeking'' = extractSection r2 ''Seeking''
     \<Longrightarrow> seeking (parseDocument r1) = seeking (parseDocument r2)"
  "extractSection r1 ''Cultural Fit'' = extractSection r2 ''Cultural Fit''
     \<Longrightarrow> cultural_fit (parseDocument r1) = cultural_fit (parseDocument r2)"
  "extractSection r1 ''Skills'' = extractSection r2 ''Skills''
     \<Longrightarrow> extractSection r1 ''About'' = extractSection r2 ''About''
     \<Longrightarrow> skills (parseDocument r1) = skills (parseDocument r2)"
  by (simp_all add: parseDocument_def Let_def)

text \<open>
  C8, as amended. Let two documents have the same lines except for the lines \<open>body1\<close> and
  \<open>body2\<close> behind one top-level heading line, neither of which holds a top-level heading
  line. Then the record of every section that the change does not concern is the same in
  both parse results, where the track record also reads the Accomplishments section (its
  \<^verbatim>\<open>financial_impact\<close>) and the skills record also reads the About section (its
  \<^verbatim>\<open>what_i_offer\<close>).
\<close>

theorem section_independence:
  assumes "split (CHR 0x0A) doc1 = pre @ heading # body1 @ post"
      and "split (CHR 0x0A) doc2 = pre @ heading # body2 @ post"
      and "is_top_heading heading"
      and "\<forall>l \<in> set (body1 @ body2). \<not> is_top_heading l"
  shows "(untouched pre heading ''About'' \<longrightarrow> about (parseDocument doc1) = about (parseDocument doc2))
       \<and> (untouched pre heading ''Narrative'' \<longrightarrow>
            narrative (parseDocument doc1) = narrative (parseDocument doc2))
       \<and> (untouched pre heading ''Thesis'' \<longrightarrow> thesis (parseDocument doc1) = thesis (parseDocument doc2))
       \<and> (untouched pre heading ''Accomplishments'' \<longrightarrow>
            accomplishments (parseDocument doc1) = accomplishments (parseDocument doc2))
       \<and> (untouched pre heading ''Track Record'' \<and> untouched pre heading ''Accomplishments'' \<longrightarrow>
            track_record (parseDocument doc1) = track_record (parseDocument doc2))
       \<and> (untouched pre heading ''Experience'' \<longrightarrow>
            experience (parseDocument doc1) = experience (parseDocument doc2))
       \<and> (untouched pre heading ''Seeking'' \<longrightarrow> seeking (parseDocument doc1) = seeking (parseDocument doc2))
       \<and> (untouched pre heading ''Cultural Fit'' \<longrightarrow>
            cultural_fit (parseDocument doc1) = cultural_fit (parseDocument doc2))
       \<and> (untouched pre heading ''Skills'' \<and> untouched pre heading ''About'' \<longrightarrow>
            skills (parseDocument doc1) = skills (parseDocument doc2))"
proof -
  have eq: "\<And>name. untouched pre heading name \<Longrightarrow> CHR 0x0A \<notin> set name \<Longrightarrow>
              extractSection doc1 name = extractSection doc2 name"
    using assms by (rule extractSection_independent)
  show ?thesis
    by (intro conjI impI records_of_sections eq) simp_all
qed

theorem section_independence_witness:
  "about (parseDocument ''## About\<newline>**Name:** Ada\<newline>\<newline>## Narrative\<newline>**Philosophy:** Care\<newline>\<newline>## Thesis\<newline>**Core Thesis:** Plan'')
     = about (parseDocument ''## About\<newline>**Name:** Ada\<newline>\<newline>## Narrative\<newline>**Philosophy:** Speed\<newline>and more\<newline>\<newline>## Thesis\<newline>**Core Thesis:** Plan'')
   \<and> thesis (parseDocument ''## About\<newline>**Name:** Ada\<newline>\<newline>## Narrative\<newline>**Philosophy:** Care\<newline>\<newline>## Thesis\<newline>**Core Thesis:** Plan'')
     = thesis (parseDocument ''## About\<newline>**Name:** Ada\<newline>\<newline>## Narrative\<newline>**Philosophy:** Speed\<newline>and more\<newline>\<newline>## Thesis\<newline>**Core Thesis:** Plan'')"
proof -
  let ?d1 = "''## About\<newline>**Name:** Ada\<newline>\<newline>## Narrative\<newline>**Philosophy:** Care\<newline>\<newline>## Thesis\<newline>**Core Thesis:** Plan''"
  let ?d2 = "''## About\<newline>**Name:** Ada\<newline>\<newline>## Narrative\<newline>**Philosophy:** Speed\<newline>and more\<newline>\<newline>## Thesis\<newline>**Core Thesis:** Plan''"
  let ?pre = "[''## About'', ''**Name:** Ada'', '''']"
  let ?post = "[''## Thesis'', ''**Core Thesis:** Plan'']"
  have 1: "split (CHR 0x0A) ?d1 = ?pre @ ''## Narrative'' # [''**Philosophy:** Care'', ''''] @ ?post"
    by code_simp
  have 2: "split (CHR 0x0A) ?d2
             = ?pre @ ''## Narrative'' # [''**Philosophy:** Speed'', ''and more'', ''''] @ ?post"
    by code_simp
  have 3: "is_top_heading ''## Narrative''" by code_simp
  have 4: "\<forall>l \<in> set ([''**Philosophy:** Care'', ''''] @ [''**Philosophy:** Speed'', ''and more'', '''']).
             \<not> is_top_heading l"
    by code_simp
  have 5: "untouched ?pre ''## Narrative'' ''About''" by code_simp
  have 6: "untouched ?pre ''## Narrative'' ''Thesis''" by code_simp
  show ?thesis
    using section_independence [OF 1 2 3 4] 5 6 by blast
qed

text \<open>
  The claim as stated fails: a change inside the About section changes the skills record,
  and a change inside the Accomplishments section changes the track record.
\<close>

theorem section_independence_counterexample:
  "skills (parseDocument (''## About\<newline>'' @ ''- **Title:** Strategy'' @ ''\<newline>## Skills\<newline>### Technical\<newline>- SQL''))
     \<noteq> skills (parseDocument (''## About\<newline>'' @ ''- **Title:** Operations'' @ ''\<newline>## Skills\<newline>### Technical\<newline>- SQL''))
   \<and> track_record (parseDocument (''## Accomplishments\<newline>### Financial Impact\<newline>| Accomplishment | Value |\<newline>|---|---|\<newline>''
           @ ''| Savings | $1M |'' @ ''\<newline>## Track Record\<newline>''))
     \<noteq> track_record (parseDocument (''## Accomplishments\<newline>### Financial Impact\<newline>| Accomplishment | Value |\<newline>|---|---|\<newline>''
           @ ''| Growth | $2M |'' @ ''\<newline>## Track Record\<newline>''))"
  by code_simp

end
